(* ===== verification/Prelude.thy ===== *)
theory Prelude
  imports Main "HOL-Library.Word" "HOL-Library.Monad_Syntax"
begin

text \<open>
  Shared vocabulary of the development: the C integer types, the error numbers, C arrays with
  faulting accesses, pointers, and the two counted loops the kernel module uses, each with the
  one rule its clients need.

  An operation that dereferences memory has a result of type \<open>'a option\<close>: \<open>None\<close> stands for a
  memory fault (NULL or dangling pointer, index outside an array), that is for undefined
  behaviour or a kernel oops.  An operation that can fail with an error number returns
  \<open>errno + 'a\<close> inside that option, with \<open>Inl\<close> for the negative return value.
\<close>

unbundle bit_operations_syntax

named_theorems array_simps \<open>reads and writes of C arrays\<close>
named_theorems unat_simps \<open>from machine words to natural numbers\<close>

section \<open>Integer types and error numbers\<close>

type_synonym u8 = "8 word"
type_synonym u16 = "16 word"
type_synonym u32 = "32 word"
type_synonym u64 = "64 word"

datatype errno =
  EINVAL | ENOSPC | ENOMEM | EIO | ENOTDIR | ENOTEMPTY | EEXIST | ENOENT | EFAULT | ENAMETOOLONG

text \<open>Where the C code keeps a negative error number in an integer variable, its value matters.\<close>

fun errno_nat :: "errno \<Rightarrow> nat" where
  "errno_nat ENOENT = 2"
| "errno_nat EIO = 5"
| "errno_nat ENOMEM = 12"
| "errno_nat EFAULT = 14"
| "errno_nat EEXIST = 17"
| "errno_nat ENOTDIR = 20"
| "errno_nat EINVAL = 22"
| "errno_nat ENOSPC = 28"
| "errno_nat ENAMETOOLONG = 36"
| "errno_nat ENOTEMPTY = 39"

section \<open>Arrays and pointers\<close>

definition array_get :: "'a list \<Rightarrow> nat \<Rightarrow> 'a option" where
  "array_get xs i = (if i < length xs then Some (xs ! i) else None)"

definition array_set :: "'a list \<Rightarrow> nat \<Rightarrow> 'a \<Rightarrow> 'a list option" where
  "array_set xs i x = (if i < length xs then Some (xs[i := x]) else None)"

lemma array_get_in [array_simps]: "i < length xs \<Longrightarrow> array_get xs i = Some (xs ! i)"
  by (simp add: array_get_def)

lemma array_get_out [array_simps]: "length xs \<le> i \<Longrightarrow> array_get xs i = None"
  by (simp add: array_get_def)

lemma array_set_in [array_simps]: "i < length xs \<Longrightarrow> array_set xs i x = Some (xs[i := x])"
  by (simp add: array_set_def)

lemma array_get_Some_iff: "array_get xs i = Some x \<longleftrightarrow> i < length xs \<and> xs ! i = x"
  by (auto simp: array_get_def)

text \<open>
  A pointer to heap memory: \<open>Null\<close>, a pointer whose target was freed but which was not reset,
  or a live pointer with the object it owns.
\<close>

datatype 'a ptr = Null | Dangling | Live 'a

fun deref :: "'a ptr \<Rightarrow> 'a option" where
  "deref Null = None"
| "deref Dangling = None"
| "deref (Live x) = Some x"

text \<open>\<open>kfree\<close> accepts NULL and faults on memory that was freed before.\<close>

fun kfree :: "'a ptr \<Rightarrow> unit option" where
  "kfree Null = Some ()"
| "kfree Dangling = None"
| "kfree (Live x) = Some ()"

text \<open>From the evaluation of a concrete run to its result.\<close>

lemma run_Inr:
  "(case z of Some (Inr u, s) \<Rightarrow> Q u s | _ \<Rightarrow> False) \<Longrightarrow> \<exists>u s. z = Some (Inr u, s) \<and> Q u s"
  by (cases z; simp split: prod.splits) (metis old.sum.exhaust sum.simps(5,6))

lemma not_Inr_unit: "z \<noteq> Inr () \<Longrightarrow> \<exists>e. z = Inl e"
  by (cases z) auto

section \<open>Word arithmetic read as natural numbers\<close>

lemma unat_bound: "unat (w :: 'a::len word) < 2 ^ LENGTH('a)"
  by (rule unsigned_less)

lemma unat_Suc_less [unat_simps]:
  fixes i e :: "'a::len word"
  assumes "i < e"
  shows "unat (i + 1) = Suc (unat i)"
proof -
  have "unat i + 1 < 2 ^ LENGTH('a)"
    using assms unat_bound [of e] unfolding word_less_nat_alt by linarith
  then show ?thesis
    by (simp add: unat_word_ariths)
qed

lemma unat_add_no_wrap [unat_simps]:
  fixes a b :: "'a::len word"
  assumes "unat a + unat b < 2 ^ LENGTH('a)"
  shows "unat (a + b) = unat a + unat b"
  using assms by (simp add: unat_word_ariths)

lemma unat_mult_no_wrap [unat_simps]:
  fixes a b :: "'a::len word"
  assumes "unat a * unat b < 2 ^ LENGTH('a)"
  shows "unat (a * b) = unat a * unat b"
  using assms by (simp add: unat_word_ariths)

lemma unat_sub_no_wrap [unat_simps]:
  fixes a b :: "'a::len word"
  assumes "b \<le> a"
  shows "unat (a - b) = unat a - unat b"
  using assms by (rule unat_sub)

lemma unat_ucast_u32_u64 [simp]: "unat (ucast (x :: u32) :: u64) = unat x"
proof -
  have "unat x < 2 ^ 64" using unat_bound [of x] by simp
  then show ?thesis by (simp add: unsigned_ucast_eq take_bit_nat_eq_self)
qed

lemma unat_u32_lt [simp]: "unat (x :: u32) < 4294967296"
  using unat_bound [of x] by simp

text \<open>Below \<open>2 ^ 63\<close> the signed reading of a 64-bit word is the unsigned one.\<close>

lemma sint_small:
  fixes p :: u64
  assumes "unat p < 2 ^ 63"
  shows "sint p = int (unat p)"
proof -
  have "int (unat p) < int (2 ^ 63)" using assms by (simp only: of_nat_less_iff)
  then have "uint p < 2 ^ 63" by (simp only: uint_nat of_nat_power of_nat_numeral)
  moreover have "- (2 ^ 63) \<le> uint p" by (rule order_trans [OF _ uint_ge_0]) simp
  ultimately have "signed_take_bit 63 (uint p) = uint p"
    by (intro signed_take_bit_int_eq_self)
  then show ?thesis by (simp add: sint_uint)
qed

lemma sless_small: "unat p < 2 ^ 63 \<Longrightarrow> unat q < 2 ^ 63 \<Longrightarrow> (p <s q) = (p < q)" for p q :: u64
  by (simp only: word_sless_alt sint_small word_less_nat_alt of_nat_less_iff)

lemma not_negative: "unat (p :: u64) < 2 ^ 63 \<Longrightarrow> \<not> p <s 0"
  by (simp add: sless_small)

section \<open>Counted loops\<close>

text \<open>
  \<open>for (u32 i = first; i < end; ++i) body\<close>, for a body that may fault.  The loop always
  terminates: the body runs only when \<open>i < end\<close>, so the increment cannot wrap.
\<close>

function for_u32 :: "u32 \<Rightarrow> u32 \<Rightarrow> (u32 \<Rightarrow> 's \<Rightarrow> 's option) \<Rightarrow> 's \<Rightarrow> 's option" where
  "for_u32 i e body s =
     (if i < e then do { s' \<leftarrow> body i s; for_u32 (i + 1) e body s' } else Some s)"
  by pat_completeness auto
termination
  by (relation "measure (\<lambda>(i, e, body, s). unat e - unat i)")
    (auto simp: unat_simps word_less_nat_alt)

declare for_u32.simps [simp del]

text \<open>The rule for such a loop: an invariant indexed by the loop variable, and no fault.\<close>

lemma for_u32_rule:
  assumes "i \<le> e" and "P i s"
    and step: "\<And>j s. i \<le> j \<Longrightarrow> j < e \<Longrightarrow> P j s \<Longrightarrow> \<exists>s'. body j s = Some s' \<and> P (j + 1) s'"
  shows "\<exists>s'. for_u32 i e body s = Some s' \<and> P e s'"
  using assms
proof (induction i e body s rule: for_u32.induct)
  case (1 i e body s)
  show ?case
  proof (cases "i < e")
    case True
    then obtain s' where s': "body i s = Some s'" "P (i + 1) s'"
      using "1.prems" by blast
    have next_le: "i + 1 \<le> e" and i_le: "i \<le> i + 1"
      using True by (simp_all add: unat_simps word_less_nat_alt word_le_nat_alt)
    have "\<exists>t. for_u32 (i + 1) e body s' = Some t \<and> P e t"
      using "1.IH" [OF True s'(1) next_le s'(2)] "1.prems"(3) i_le by (meson order_trans)
    with True s'(1) show ?thesis
      by (simp add: for_u32.simps [of i])
  next
    case False
    with "1.prems" have "i = e" by simp
    with "1.prems"(2) show ?thesis
      by (simp add: for_u32.simps [of e])
  qed
qed

text \<open>
  \<open>for (u32 i = first; i < end; ++i) if (test(i)) return i;\<close>: the first index that passes.
\<close>

function find_u32 :: "u32 \<Rightarrow> u32 \<Rightarrow> (u32 \<Rightarrow> bool option) \<Rightarrow> u32 option option" where
  "find_u32 i e test =
     (if i < e then do {
        b \<leftarrow> test i;
        if b then Some (Some i) else find_u32 (i + 1) e test }
      else Some None)"
  by pat_completeness auto
termination
  by (relation "measure (\<lambda>(i, e, test). unat e - unat i)")
    (auto simp: unat_simps word_less_nat_alt)

declare find_u32.simps [simp del]

lemma find_u32_rule:
  assumes "\<And>j. i \<le> j \<Longrightarrow> j < e \<Longrightarrow> test j = Some (Q (unat j))"
  shows "find_u32 i e test =
    Some (if \<exists>n. unat i \<le> n \<and> n < unat e \<and> Q n
          then Some (of_nat (LEAST n. unat i \<le> n \<and> Q n)) else None)"
  using assms
proof (induction i e test rule: find_u32.induct)
  case (1 i e test)
  show ?case
  proof (cases "i < e")
    case False
    then show ?thesis
      by (subst find_u32.simps) (auto simp: word_less_nat_alt)
  next
    case True
    then have test_i: "test i = Some (Q (unat i))" by (rule "1.prems" [OF order_refl])
    show ?thesis
    proof (cases "Q (unat i)")
      case Q: True
      then have "(LEAST n. unat i \<le> n \<and> Q n) = unat i"
        by (intro Least_equality) auto
      with True Q test_i show ?thesis
        by (subst find_u32.simps) (auto simp: word_less_nat_alt)
    next
      case Q: False
      have nxt: "unat (i + 1) = Suc (unat i)" using True by (rule unat_Suc_less)
      have same: "(unat i \<le> n \<and> Q n) = (unat (i + 1) \<le> n \<and> Q n)" for n
        using Q nxt by (auto simp: Suc_le_eq le_less)
      have same_e: "(\<exists>n. unat i \<le> n \<and> n < unat e \<and> Q n) =
                    (\<exists>n. unat (i + 1) \<le> n \<and> n < unat e \<and> Q n)"
        using Q nxt by (metis Suc_le_eq le_less)
      have "\<And>j. i + 1 \<le> j \<Longrightarrow> j < e \<Longrightarrow> test j = Some (Q (unat j))"
        using "1.prems" nxt by (simp add: word_le_nat_alt)
      from "1.IH" [OF True test_i Q this] show ?thesis
        using True test_i Q by (subst find_u32.simps) (simp only: bind.bind_lunit same same_e if_True if_False)
    qed
  qed
qed

end
