(* ===== verification/Structs.thy ===== *)
theory Structs
  imports Prelude
begin

text \<open>
  The data model: \<open>common/shared_structs.h\<close>, \<open>struct dir_entry\<close> of \<open>kernel/directory.h\<close>, and
  \<open>get_extent\<close> of \<open>kernel/portfs.h\<close>.
\<close>

section \<open>In-memory structures\<close>

abbreviation DIRECT_EXTENTS :: nat where
  "DIRECT_EXTENTS \<equiv> 4"

record extent =
  start_block :: u32
  ext_length :: u32

text \<open>\<open>direct_extents\<close> is an array of \<open>DIRECT_EXTENTS\<close> elements.\<close>

record file_data =
  extent_count :: u16
  extents_block :: u32
  direct_extents :: "extent list"

record dir_data =
  dir_block :: u32
  parent_dir_ino :: u32

record dir_entry =
  de_name :: "u8 list"
  inode_number :: u32

text \<open>
  The union of \<open>file\<close> and \<open>dir\<close> is modelled by two members: every operation picks the member by
  the entry's mode, and an entry changes its role only through \<open>memset\<close> to zero, which clears both.
\<close>

record filetable_entry =
  ino :: u32
  mode :: u16
  size_in_bytes :: u64
  file_u :: file_data
  dir_u :: dir_data
  indirect_extents :: "extent list ptr"
  dir_entries :: "dir_entry list ptr"

text \<open>
  The unused \<open>ino_bitmap\<close> and the back pointer \<open>super\<close> are left out.
\<close>

record portfs_superblock =
  magic_number :: u32
  block_size :: u32
  total_blocks :: u32
  filetable_start :: u32
  filetable_size :: u32
  block_bitmap_start :: u32
  block_bitmap_size :: u32
  data_start :: u32
  max_file_count :: u32
  checksum :: u32
  last_mount_time :: u64
  last_write_time :: u64
  flags :: u32
  filetable :: "filetable_entry list"
  block_bitmap :: "u8 list"

text \<open>\<open>memset(entry, 0, sizeof(*entry))\<close>.\<close>

definition zero_extent :: extent where
  "zero_extent = \<lparr>start_block = 0, ext_length = 0\<rparr>"

definition zero_entry :: filetable_entry where
  "zero_entry =
     \<lparr>ino = 0, mode = 0, size_in_bytes = 0,
      file_u = \<lparr>extent_count = 0, extents_block = 0, direct_extents = replicate DIRECT_EXTENTS zero_extent\<rparr>,
      dir_u = \<lparr>dir_block = 0, parent_dir_ino = 0\<rparr>,
      indirect_extents = Null, dir_entries = Null\<rparr>"

section \<open>File modes\<close>

abbreviation S_IFMT :: u16 where "S_IFMT \<equiv> 0xF000"
abbreviation S_IFREG :: u16 where "S_IFREG \<equiv> 0x8000"
abbreviation S_IFDIR :: u16 where "S_IFDIR \<equiv> 0x4000"

definition S_ISREG :: "u16 \<Rightarrow> bool" where
  "S_ISREG m \<longleftrightarrow> m AND S_IFMT = S_IFREG"

definition S_ISDIR :: "u16 \<Rightarrow> bool" where
  "S_ISDIR m \<longleftrightarrow> m AND S_IFMT = S_IFDIR"

lemma not_REG_and_DIR: "S_ISREG m \<Longrightarrow> \<not> S_ISDIR m"
  by (simp add: S_ISREG_def S_ISDIR_def)

section \<open>Extents of a file\<close>

definition get_extent :: "filetable_entry \<Rightarrow> nat \<Rightarrow> extent option" where
  "get_extent fe i =
     (if i < DIRECT_EXTENTS then array_get (direct_extents (file_u fe)) i
      else do { es \<leftarrow> deref (indirect_extents fe); array_get es (i - DIRECT_EXTENTS) })"

end
