(* ===== verification/Samples.thy ===== *)
theory Samples
  imports Structs
begin

text \<open>
  A small storage file for the concrete instances of the theorems: blocks of 136 bytes (two
  directory entries, or 17 indirect extents), data from block 2 on, two file table entries.
\<close>

definition sample_super :: "u8 list \<Rightarrow> portfs_superblock" where
  "sample_super bm =
     \<lparr>magic_number = 0x506F5254, block_size = 136, total_blocks = of_nat (8 * length bm),
      filetable_start = 1, filetable_size = 0, block_bitmap_start = 1, block_bitmap_size = 1,
      data_start = 2, max_file_count = 2, checksum = 0, last_mount_time = 0, last_write_time = 0,
      flags = 0, filetable = [zero_entry, zero_entry], block_bitmap = bm\<rparr>"

text \<open>A regular file with up to four extents, given by their starts and lengths.\<close>

definition sample_file :: "u64 \<Rightarrow> (u32 \<times> u32) list \<Rightarrow> filetable_entry" where
  "sample_file sz es = zero_entry\<lparr>ino := 7, mode := 0x81A4, size_in_bytes := sz,
     file_u := \<lparr>extent_count = of_nat (length es), extents_block = 0,
       direct_extents = map (\<lambda>(s, l). \<lparr>start_block = s, ext_length = l\<rparr>) es @
                        replicate (DIRECT_EXTENTS - length es) zero_extent\<rparr>\<rparr>"

text \<open>The same with blocks of 8 bytes, for runs that touch the bytes of the storage.\<close>

definition tiny_super :: "u8 list \<Rightarrow> portfs_superblock" where
  "tiny_super bm = (sample_super bm)\<lparr>block_size := 8\<rparr>"

end
