(* ===== verification/Bitmap.thy ===== *)
theory Bitmap
  imports Samples
begin

text \<open>
  The block bitmap: \<open>kernel/bitmap.h\<close> and \<open>kernel/block_bitmap.h\<close>.  The bitmap is the byte
  array of the C code; \<open>bits_of\<close> is the set of block numbers it marks, and the interface
  \<open>bit_store\<close> states what the rest of the file system relies on.  The range operations and the
  search for a free block are verified once against that interface.
\<close>

section \<open>Operations\<close>

definition portfs_bitmap_is_set :: "u8 list \<Rightarrow> u32 \<Rightarrow> bool option" where
  "portfs_bitmap_is_set bitmap b = do {
     byte \<leftarrow> array_get bitmap (unat (b div 8));
     Some (byte AND push_bit (unat (b mod 8)) 1 \<noteq> 0) }"

definition portfs_bitmap_set_bit :: "u8 list \<Rightarrow> u32 \<Rightarrow> u8 list option" where
  "portfs_bitmap_set_bit bitmap b = do {
     byte \<leftarrow> array_get bitmap (unat (b div 8));
     array_set bitmap (unat (b div 8)) (byte OR push_bit (unat (b mod 8)) 1) }"

definition portfs_bitmap_set_bits :: "u8 list \<Rightarrow> u32 \<Rightarrow> u32 \<Rightarrow> u8 list option" where
  "portfs_bitmap_set_bits bitmap start_bit len =
     for_u32 start_bit (start_bit + len) (\<lambda>i bm. portfs_bitmap_set_bit bm i) bitmap"

definition portfs_bitmap_clear_bit :: "u8 list \<Rightarrow> u32 \<Rightarrow> u8 list option" where
  "portfs_bitmap_clear_bit bitmap b = do {
     byte \<leftarrow> array_get bitmap (unat (b div 8));
     array_set bitmap (unat (b div 8)) (byte AND NOT (push_bit (unat (b mod 8)) 1)) }"

definition portfs_bitmap_clear_bits :: "u8 list \<Rightarrow> u32 \<Rightarrow> u32 \<Rightarrow> u8 list option" where
  "portfs_bitmap_clear_bits bitmap start_bit len =
     for_u32 start_bit (start_bit + len) (\<lambda>i bm. portfs_bitmap_clear_bit bm i) bitmap"

definition is_block_allocated :: "u8 list \<Rightarrow> u32 \<Rightarrow> bool option" where
  "is_block_allocated bitmap block = portfs_bitmap_is_set bitmap block"

definition set_block_allocated :: "u8 list \<Rightarrow> u32 \<Rightarrow> u8 list option" where
  "set_block_allocated bitmap block = portfs_bitmap_set_bit bitmap block"

definition set_blocks_allocated :: "u8 list \<Rightarrow> u32 \<Rightarrow> u32 \<Rightarrow> u8 list option" where
  "set_blocks_allocated bitmap start len = portfs_bitmap_set_bits bitmap start len"

definition clear_block_allocated :: "u8 list \<Rightarrow> u32 \<Rightarrow> u8 list option" where
  "clear_block_allocated bitmap block = portfs_bitmap_clear_bit bitmap block"

definition clear_blocks_allocated :: "u8 list \<Rightarrow> u32 \<Rightarrow> u32 \<Rightarrow> u8 list option" where
  "clear_blocks_allocated bitmap start len = portfs_bitmap_clear_bits bitmap start len"

text \<open>The result is a C \<open>int\<close>, kept here as its 32 bits; \<open>-1\<close> means that no block is free.\<close>

definition find_free_block :: "portfs_superblock \<Rightarrow> u32 option" where
  "find_free_block psb = do {
     r \<leftarrow> find_u32 (data_start psb) (total_blocks psb)
           (\<lambda>i. map_option Not (is_block_allocated (block_bitmap psb) i));
     Some (case r of Some i \<Rightarrow> i | None \<Rightarrow> -1) }"

section \<open>The interface\<close>

locale bit_store =
  fixes get :: "'b \<Rightarrow> u32 \<Rightarrow> bool option"
    and put :: "'b \<Rightarrow> u32 \<Rightarrow> 'b option"
    and clr :: "'b \<Rightarrow> u32 \<Rightarrow> 'b option"
    and cap :: "'b \<Rightarrow> nat"
    and bits :: "'b \<Rightarrow> nat set"
  assumes get_law: "unat i < cap b \<Longrightarrow> get b i = Some (unat i \<in> bits b)"
    and put_law: "unat i < cap b \<Longrightarrow>
      \<exists>b'. put b i = Some b' \<and> cap b' = cap b \<and> bits b' = insert (unat i) (bits b)"
    and clr_law: "unat i < cap b \<Longrightarrow>
      \<exists>b'. clr b i = Some b' \<and> cap b' = cap b \<and> bits b' = bits b - {unat i}"
    and ext_law: "cap b = cap b' \<Longrightarrow> bits b = bits b' \<Longrightarrow> b = b'"
begin

lemma put_range:
  assumes "s \<le> e" and "unat e \<le> cap b"
  shows "\<exists>b'. for_u32 s e (\<lambda>i x. put x i) b = Some b' \<and> cap b' = cap b \<and>
    bits b' = bits b \<union> {unat s..<unat e}"
proof -
  let ?P = "\<lambda>j x. cap x = cap b \<and> bits x = bits b \<union> {unat s..<unat j}"
  have "\<exists>b'. for_u32 s e (\<lambda>i x. put x i) b = Some b' \<and> ?P e b'"
  proof (rule for_u32_rule [OF assms(1)])
    fix j x assume j: "s \<le> j" "j < e" and P: "?P j x"
    then have "unat j < cap x" using assms(2) by (simp add: word_less_nat_alt)
    from put_law [OF this] obtain x' where
      "put x j = Some x'" "cap x' = cap x" "bits x' = insert (unat j) (bits x)" by blast
    with P j(1) show "\<exists>x'. put x j = Some x' \<and> ?P (j + 1) x'"
      by (simp add: unat_Suc_less [OF j(2)] word_le_nat_alt atLeastLessThanSuc)
  qed simp
  then show ?thesis by blast
qed

lemma clr_range:
  assumes "s \<le> e" and "unat e \<le> cap b"
  shows "\<exists>b'. for_u32 s e (\<lambda>i x. clr x i) b = Some b' \<and> cap b' = cap b \<and>
    bits b' = bits b - {unat s..<unat e}"
proof -
  let ?P = "\<lambda>j x. cap x = cap b \<and> bits x = bits b - {unat s..<unat j}"
  have "\<exists>b'. for_u32 s e (\<lambda>i x. clr x i) b = Some b' \<and> ?P e b'"
  proof (rule for_u32_rule [OF assms(1)])
    fix j x assume j: "s \<le> j" "j < e" and P: "?P j x"
    then have "unat j < cap x" using assms(2) by (simp add: word_less_nat_alt)
    from clr_law [OF this] obtain x' where
      "clr x j = Some x'" "cap x' = cap x" "bits x' = bits x - {unat j}" by blast
    with P j(1) show "\<exists>x'. clr x j = Some x' \<and> ?P (j + 1) x'"
      by (simp add: unat_Suc_less [OF j(2)] word_le_nat_alt atLeastLessThanSuc set_diff_eq) blast
  qed simp
  then show ?thesis by blast
qed

lemma put_clr_range:
  assumes "s \<le> e" and "unat e \<le> cap b" and "bits b \<inter> {unat s..<unat e} = {}"
    and "for_u32 s e (\<lambda>i x. put x i) b = Some b'"
  shows "for_u32 s e (\<lambda>i x. clr x i) b' = Some b"
proof -
  from put_range [OF assms(1,2)] assms(4)
  have b': "cap b' = cap b" "bits b' = bits b \<union> {unat s..<unat e}" by auto
  from clr_range [OF assms(1), of b'] b' assms(2) obtain b'' where
    b'': "for_u32 s e (\<lambda>i x. clr x i) b' = Some b''" "cap b'' = cap b'"
      "bits b'' = bits b' - {unat s..<unat e}" by auto
  have "b'' = b"
    by (rule ext_law) (use b' b'' assms(3) in auto)
  with b''(1) show ?thesis by simp
qed

lemma find_clear:
  assumes "unat e \<le> cap b"
  shows "find_u32 s e (\<lambda>i. map_option Not (get b i)) =
    Some (if \<exists>n. unat s \<le> n \<and> n < unat e \<and> n \<notin> bits b
          then Some (of_nat (LEAST n. unat s \<le> n \<and> n \<notin> bits b)) else None)"
  by (rule find_u32_rule) (use assms get_law in \<open>simp add: word_less_nat_alt\<close>)

end

section \<open>The bitmap provides the interface\<close>

definition bits_of :: "u8 list \<Rightarrow> nat set" where
  "bits_of bitmap = {n. n < 8 * length bitmap \<and> bit (bitmap ! (n div 8)) (n mod 8)}"

lemma bits_of_code [code]:
  "bits_of bitmap = set (filter (\<lambda>n. bit (bitmap ! (n div 8)) (n mod 8)) [0..<8 * length bitmap])"
  by (auto simp: bits_of_def)

lemma byte_index: "unat (b :: u32) < 8 * len \<Longrightarrow> unat (b div 8) < len"
  by (simp add: unat_div)

lemma bitmap_get:
  assumes "unat i < 8 * length bitmap"
  shows "portfs_bitmap_is_set bitmap i = Some (unat i \<in> bits_of bitmap)"
  using assms byte_index [OF assms]
  by (simp add: portfs_bitmap_is_set_def array_simps bits_of_def and_exp_eq_0_iff_not_bit
      unat_div unat_mod)

lemma bits_of_update:
  assumes "n < 8 * length bitmap" and "\<And>k. k < 8 \<Longrightarrow> bit w k = (if k = n mod 8 then v else bit (bitmap ! (n div 8)) k)"
  shows "bits_of (bitmap[n div 8 := w]) = (if v then insert n (bits_of bitmap) else bits_of bitmap - {n})"
proof -
  have "m \<in> bits_of (bitmap[n div 8 := w]) \<longleftrightarrow> (if m = n then v else m \<in> bits_of bitmap)" for m
  proof (cases "m div 8 = n div 8")
    case True
    then have eq: "(m = n) = (m mod 8 = n mod 8)"
      by (metis div_mult_mod_eq)
    have n_lt: "n div 8 < length bitmap"
      using assms(1) by (simp add: less_mult_imp_div_less)
    have m_lt: "m < 8 * length bitmap"
    proof -
      have "m = 8 * (n div 8) + m mod 8" using True div_mult_mod_eq [of m 8] by simp
      also have "\<dots> < 8 * Suc (n div 8)" by simp
      also have "\<dots> \<le> 8 * length bitmap" using n_lt by (intro mult_le_mono2) simp
      finally show ?thesis .
    qed
    have "m \<in> bits_of (bitmap[n div 8 := w]) \<longleftrightarrow> bit w (m mod 8)"
      unfolding bits_of_def mem_Collect_eq length_list_update True
      using n_lt m_lt by (simp only: nth_list_update_eq simp_thms)
    also have "\<dots> \<longleftrightarrow> (if m = n then v else bit (bitmap ! (m div 8)) (m mod 8))"
      unfolding eq True by (rule assms(2)) simp
    also have "bit (bitmap ! (m div 8)) (m mod 8) \<longleftrightarrow> m \<in> bits_of bitmap"
      unfolding bits_of_def mem_Collect_eq using m_lt by (simp only: simp_thms)
    finally show ?thesis .
  next
    case False
    then have neq: "m \<noteq> n" by blast
    show ?thesis
      unfolding bits_of_def mem_Collect_eq length_list_update
      by (simp only: nth_list_update_neq [OF False [symmetric]] neq if_False)
  qed
  then show ?thesis
    by (intro set_eqI) (simp split: if_split)
qed

lemma bitmap_put:
  assumes "unat i < 8 * length bitmap"
  shows "\<exists>bm'. portfs_bitmap_set_bit bitmap i = Some bm' \<and> 8 * length bm' = 8 * length bitmap \<and>
    bits_of bm' = insert (unat i) (bits_of bitmap)"
proof -
  have "bit (bitmap ! (unat i div 8) OR push_bit (unat i mod 8) 1) k =
      (if k = unat i mod 8 then True else bit (bitmap ! (unat i div 8)) k)" if "k < 8" for k
    using that by (auto simp: bit_simps)
  from bits_of_update [OF assms this] show ?thesis
    using byte_index [OF assms]
    by (simp add: portfs_bitmap_set_bit_def array_simps unat_div unat_mod)
qed

lemma bitmap_clr:
  assumes "unat i < 8 * length bitmap"
  shows "\<exists>bm'. portfs_bitmap_clear_bit bitmap i = Some bm' \<and> 8 * length bm' = 8 * length bitmap \<and>
    bits_of bm' = bits_of bitmap - {unat i}"
proof -
  have "bit (bitmap ! (unat i div 8) AND NOT (push_bit (unat i mod 8) 1)) k =
      (if k = unat i mod 8 then False else bit (bitmap ! (unat i div 8)) k)" if "k < 8" for k
    using that by (auto simp: bit_simps)
  from bits_of_update [OF assms this] show ?thesis
    using byte_index [OF assms]
    by (simp add: portfs_bitmap_clear_bit_def array_simps unat_div unat_mod)
qed

lemma bits_of_eq:
  assumes "8 * length bm = 8 * length bm'" and "bits_of bm = bits_of bm'"
  shows "bm = bm'"
proof (rule nth_equalityI)
  show "length bm = length bm'" using assms(1) by simp
  fix i assume i: "i < length bm"
  show "bm ! i = bm' ! i"
  proof (rule bit_eqI)
    fix k assume "possible_bit TYPE(u8) k"
    then have k: "k < 8" by simp
    have "(8 * i + k \<in> bits_of bm) = (8 * i + k \<in> bits_of bm')" using assms(2) by simp
    with i k assms(1) show "bit (bm ! i) k = bit (bm' ! i) k"
      by (simp add: bits_of_def)
  qed
qed

interpretation bitmap: bit_store portfs_bitmap_is_set portfs_bitmap_set_bit portfs_bitmap_clear_bit
    "\<lambda>bm. 8 * length bm" bits_of
  by unfold_locales (fact bitmap_get bitmap_put bitmap_clr bits_of_eq)+

section \<open>Range operations and the search on the file system's bitmap\<close>

lemma unat_range_end: "unat (s :: u32) + unat l < 2 ^ 32 \<Longrightarrow> unat (s + l) = unat s + unat l"
  by (simp add: unat_simps)

lemma set_blocks_allocated_bits:
  assumes "unat s + unat l < 2 ^ 32" and "unat s + unat l \<le> 8 * length bm"
  shows "\<exists>bm'. set_blocks_allocated bm s l = Some bm' \<and> length bm' = length bm \<and>
    bits_of bm' = bits_of bm \<union> {unat s..<unat s + unat l}"
  using bitmap.put_range [of s "s + l" bm] assms
  by (simp add: set_blocks_allocated_def portfs_bitmap_set_bits_def unat_range_end word_le_nat_alt)

lemma clear_blocks_allocated_bits:
  assumes "unat s + unat l < 2 ^ 32" and "unat s + unat l \<le> 8 * length bm"
  shows "\<exists>bm'. clear_blocks_allocated bm s l = Some bm' \<and> length bm' = length bm \<and>
    bits_of bm' = bits_of bm - {unat s..<unat s + unat l}"
  using bitmap.clr_range [of s "s + l" bm] assms
  by (simp add: clear_blocks_allocated_def portfs_bitmap_clear_bits_def unat_range_end word_le_nat_alt)

lemma set_block_allocated_bits:
  assumes "unat b < 8 * length bm"
  shows "\<exists>bm'. set_block_allocated bm b = Some bm' \<and> length bm' = length bm \<and>
    bits_of bm' = insert (unat b) (bits_of bm)"
  using bitmap.put_law [OF assms] by (simp add: set_block_allocated_def)

lemma clear_block_allocated_bits:
  assumes "unat b < 8 * length bm"
  shows "\<exists>bm'. clear_block_allocated bm b = Some bm' \<and> length bm' = length bm \<and>
    bits_of bm' = bits_of bm - {unat b}"
  using bitmap.clr_law [OF assms] by (simp add: clear_block_allocated_def)

lemma is_block_allocated_bits:
  "unat b < 8 * length bm \<Longrightarrow> is_block_allocated bm b = Some (unat b \<in> bits_of bm)"
  by (simp add: is_block_allocated_def bitmap.get_law)

text \<open>The bitmap has a bit for every block of the storage, and the data area lies inside it.\<close>

definition geometry :: "portfs_superblock \<Rightarrow> bool" where
  "geometry psb \<longleftrightarrow> data_start psb \<le> total_blocks psb \<and>
     unat (total_blocks psb) \<le> 8 * length (block_bitmap psb)"

text \<open>The blocks of the data area that are free, and those that are taken.\<close>

definition free_blocks :: "portfs_superblock \<Rightarrow> nat set" where
  "free_blocks psb = {unat (data_start psb)..<unat (total_blocks psb)} - bits_of (block_bitmap psb)"

definition used_blocks :: "portfs_superblock \<Rightarrow> nat set" where
  "used_blocks psb = bits_of (block_bitmap psb)"

lemma finite_free_blocks [simp]: "finite (free_blocks psb)"
  by (simp add: free_blocks_def)

lemma free_block_bound: "n \<in> free_blocks psb \<Longrightarrow> n < 2 ^ 32"
  by (auto simp: free_blocks_def intro: less_trans [OF _ unat_u32_lt])

lemma find_free_block_cases:
  assumes "geometry psb"
  shows "find_free_block psb =
    Some (if free_blocks psb = {} then -1 else of_nat (Min (free_blocks psb)))"
proof -
  let ?Q = "\<lambda>n. n \<notin> bits_of (block_bitmap psb)"
  let ?ds = "unat (data_start psb)" and ?tb = "unat (total_blocks psb)"
  have ex: "(\<exists>n. ?ds \<le> n \<and> n < ?tb \<and> ?Q n) \<longleftrightarrow> free_blocks psb \<noteq> {}"
    by (auto simp: free_blocks_def)
  have least: "(LEAST n. ?ds \<le> n \<and> ?Q n) = Min (free_blocks psb)" if ne: "free_blocks psb \<noteq> {}"
  proof (rule Least_equality)
    have "Min (free_blocks psb) \<in> free_blocks psb" using ne by simp
    then show "?ds \<le> Min (free_blocks psb) \<and> ?Q (Min (free_blocks psb))"
      by (simp add: free_blocks_def)
    fix n assume n: "?ds \<le> n \<and> ?Q n"
    show "Min (free_blocks psb) \<le> n"
    proof (cases "n < ?tb")
      case True
      with n have "n \<in> free_blocks psb" by (simp add: free_blocks_def)
      then show ?thesis by simp
    next
      case False
      have "Min (free_blocks psb) < ?tb"
        using Min_in [OF _ ne] by (simp add: free_blocks_def)
      with False show ?thesis by simp
    qed
  qed
  have "unat (total_blocks psb) \<le> 8 * length (block_bitmap psb)"
    using assms by (simp add: geometry_def)
  from bitmap.find_clear [OF this, of "data_start psb"] show ?thesis
    by (simp add: find_free_block_def is_block_allocated_def ex least)
qed

lemma find_free_block_free:
  assumes "geometry psb" and "find_free_block psb = Some b" and "b \<noteq> -1"
  shows "unat b \<in> free_blocks psb"
proof -
  from assms have ne: "free_blocks psb \<noteq> {}" and b: "b = of_nat (Min (free_blocks psb))"
    by (auto simp: find_free_block_cases split: if_splits)
  have in_free: "Min (free_blocks psb) \<in> free_blocks psb" using ne by simp
  then have "unat b = Min (free_blocks psb)"
    using free_block_bound [of "Min (free_blocks psb)" psb] by (simp add: b unat_of_nat)
  with in_free show ?thesis by simp
qed

section \<open>Properties\<close>

text \<open>
  Marking a range of blocks as allocated does not fault inside the bitmap, marks exactly the
  blocks of the range and leaves the answer for every other block as it was.
\<close>

theorem set_blocks_allocated_exact:
  assumes "unat start + unat len < 2 ^ 32" and "unat start + unat len \<le> 8 * length bm"
  shows "\<exists>bm'. set_blocks_allocated bm start len = Some bm' \<and> length bm' = length bm \<and>
    (\<forall>b. unat b < 8 * length bm \<longrightarrow> is_block_allocated bm' b =
       (if start \<le> b \<and> unat b < unat start + unat len then Some True else is_block_allocated bm b))"
proof -
  obtain bm' where bm': "set_blocks_allocated bm start len = Some bm'" "length bm' = length bm"
      "bits_of bm' = bits_of bm \<union> {unat start..<unat start + unat len}"
    using set_blocks_allocated_bits [OF assms] by blast
  then show ?thesis
    by (intro exI [of _ bm']) (auto simp: is_block_allocated_bits word_le_nat_alt)
qed

theorem set_blocks_allocated_exact_witness:
  "\<exists>bm'. set_blocks_allocated [0x81, 0x00] 6 4 = Some bm' \<and> length bm' = length [0x81, 0x00 :: u8] \<and>
    (\<forall>b. unat b < 8 * length [0x81, 0x00 :: u8] \<longrightarrow> is_block_allocated bm' b =
       (if 6 \<le> b \<and> unat b < unat (6 :: u32) + unat (4 :: u32) then Some True
        else is_block_allocated [0x81, 0x00] b))"
  by (rule set_blocks_allocated_exact) simp_all

text \<open>
  Clearing a range that was free before it was set restores the bitmap byte for byte, so
  freeing an extent is the exact inverse of allocating it.
\<close>

theorem clear_blocks_undoes_set_blocks:
  assumes "unat start + unat len < 2 ^ 32" and "unat start + unat len \<le> 8 * length bm"
    and "\<And>b. start \<le> b \<Longrightarrow> unat b < unat start + unat len \<Longrightarrow> is_block_allocated bm b = Some False"
  shows "do { bm' \<leftarrow> set_blocks_allocated bm start len; clear_blocks_allocated bm' start len } = Some bm"
proof -
  let ?e = "start + len"
  have e: "unat ?e = unat start + unat len" using assms(1) by (rule unat_range_end)
  have "n \<notin> bits_of bm" if n: "unat start \<le> n" "n < unat ?e" for n
  proof -
    have un: "unat (of_nat n :: u32) = n"
      using n e assms(1) by (simp add: unat_of_nat)
    then show ?thesis
      using assms(3) [of "of_nat n"] is_block_allocated_bits [of "of_nat n" bm] n e assms(2)
      by (simp add: word_le_nat_alt)
  qed
  then have free: "bits_of bm \<inter> {unat start..<unat ?e} = {}" by auto
  have le: "start \<le> ?e" "unat ?e \<le> 8 * length bm" using e assms(2) by (simp_all add: word_le_nat_alt)
  obtain bm' where bm': "set_blocks_allocated bm start len = Some bm'"
    using set_blocks_allocated_bits [OF assms(1,2)] by blast
  with bitmap.put_clr_range [OF le free, of bm'] show ?thesis
    by (simp add: set_blocks_allocated_def clear_blocks_allocated_def portfs_bitmap_set_bits_def
        portfs_bitmap_clear_bits_def)
qed

theorem clear_blocks_undoes_set_blocks_witness:
  "do { bm' \<leftarrow> set_blocks_allocated [0x03, 0x80] 5 7; clear_blocks_allocated bm' 5 7 } = Some [0x03, 0x80]"
proof (rule clear_blocks_undoes_set_blocks)
  fix b :: u32 assume b: "5 \<le> b" "unat b < unat (5 :: u32) + unat (7 :: u32)"
  have "unat b \<notin> bits_of [0x03, 0x80]"
  proof
    assume "unat b \<in> bits_of [0x03, 0x80]"
    moreover have "bits_of [0x03, 0x80] = {0, 1, 15}" by code_simp
    ultimately show False using b by (auto simp: word_le_nat_alt)
  qed
  then show "is_block_allocated [0x03, 0x80] b = Some False"
    using b by (simp add: is_block_allocated_bits)
qed simp_all

text \<open>
  The search for a free block returns the least free block of the data area, and -1 exactly
  when every block of the data area is allocated; it never reads outside the bitmap.
\<close>

theorem find_free_block_least:
  assumes "geometry psb"
  shows "\<exists>r. find_free_block psb = Some r \<and>
    (if r = -1 then \<forall>b. data_start psb \<le> b \<and> b < total_blocks psb \<longrightarrow> is_block_allocated (block_bitmap psb) b = Some True
     else data_start psb \<le> r \<and> r < total_blocks psb \<and> is_block_allocated (block_bitmap psb) r = Some False \<and>
       (\<forall>b. data_start psb \<le> b \<and> b < r \<longrightarrow> is_block_allocated (block_bitmap psb) b = Some True))"
proof -
  have inside: "is_block_allocated (block_bitmap psb) b = Some (unat b \<notin> free_blocks psb)"
    if "data_start psb \<le> b" "b < total_blocks psb" for b
    using that assms
    by (subst is_block_allocated_bits)
      (auto simp: geometry_def free_blocks_def word_le_nat_alt word_less_nat_alt)
  obtain r where r: "find_free_block psb = Some r" using find_free_block_cases [OF assms] by blast
  show ?thesis
  proof (cases "r = -1")
    case True
    have none: "free_blocks psb = {}"
    proof (rule ccontr)
      assume ne: "free_blocks psb \<noteq> {}"
      then have "of_nat (Min (free_blocks psb)) = (-1 :: u32)"
        using r True find_free_block_cases [OF assms] by simp
      then have "unat (of_nat (Min (free_blocks psb)) :: u32) = 2 ^ 32 - 1"
        by (simp add: unsigned_minus_1_eq_mask mask_eq_exp_minus_1)
      moreover have "Min (free_blocks psb) \<in> free_blocks psb" using ne by simp
      then have "Min (free_blocks psb) < unat (total_blocks psb)" by (simp add: free_blocks_def)
      then have "Min (free_blocks psb) < 4294967295"
        using unat_u32_lt [of "total_blocks psb"] by linarith
      ultimately show False by (simp add: unat_of_nat)
    qed
    show ?thesis
    proof (intro exI [of _ r] conjI)
      show "if r = -1 then \<forall>b. data_start psb \<le> b \<and> b < total_blocks psb \<longrightarrow> is_block_allocated (block_bitmap psb) b = Some True
        else data_start psb \<le> r \<and> r < total_blocks psb \<and> is_block_allocated (block_bitmap psb) r = Some False \<and>
          (\<forall>b. data_start psb \<le> b \<and> b < r \<longrightarrow> is_block_allocated (block_bitmap psb) b = Some True)"
        unfolding if_P [OF True] by (simp add: inside none)
    qed (rule r)
  next
    case False
    have free: "unat r \<in> free_blocks psb" by (rule find_free_block_free [OF assms r False])
    then have range: "data_start psb \<le> r" "r < total_blocks psb"
      by (simp_all add: free_blocks_def word_le_nat_alt word_less_nat_alt)
    have "r = of_nat (Min (free_blocks psb))"
      using r False find_free_block_cases [OF assms] by (auto split: if_splits)
    moreover have "Min (free_blocks psb) < 2 ^ 32"
      using free free_block_bound Min_in [of "free_blocks psb"] by fastforce
    ultimately have r_min: "unat r = Min (free_blocks psb)" by (simp add: unat_of_nat)
    have "unat b \<notin> free_blocks psb" if "b < r" for b
      using that Min_le [OF finite_free_blocks, of "unat b" psb] unfolding word_less_nat_alt r_min by linarith
    then have "is_block_allocated (block_bitmap psb) b = Some True" if "data_start psb \<le> b \<and> b < r" for b
      using that inside [of b] less_trans [of b r "total_blocks psb"] range(2) by simp
    with range free r inside [of r] show ?thesis
      by (intro exI [of _ r]) (simp only: False if_False simp_thms, blast)
  qed
qed

theorem find_free_block_least_witness:
  "\<exists>r. find_free_block (sample_super [0x1F, 0x00]) = Some r \<and>
    (if r = -1 then \<forall>b. data_start (sample_super [0x1F, 0x00]) \<le> b \<and> b < total_blocks (sample_super [0x1F, 0x00]) \<longrightarrow>
         is_block_allocated (block_bitmap (sample_super [0x1F, 0x00])) b = Some True
     else data_start (sample_super [0x1F, 0x00]) \<le> r \<and> r < total_blocks (sample_super [0x1F, 0x00]) \<and>
       is_block_allocated (block_bitmap (sample_super [0x1F, 0x00])) r = Some False \<and>
       (\<forall>b. data_start (sample_super [0x1F, 0x00]) \<le> b \<and> b < r \<longrightarrow>
         is_block_allocated (block_bitmap (sample_super [0x1F, 0x00])) b = Some True))"
  by (rule find_free_block_least) (simp add: geometry_def sample_super_def)

end
