(* ===== verification/Extent_Tree.thy ===== *)
theory Extent_Tree
  imports Bitmap "HOL-Library.Tree" "HOL-Library.Multiset"
begin

text \<open>
  The tree of free extents: \<open>kernel/extent_tree.c\<close> and \<open>kernel/extent_tree.h\<close>.  The descent of
  \<open>portfs_extent_tree_insert\<close> and the scan of \<open>portfs_build_extent_tree\<close> are the code's.  The
  kernel's \<open>rb_insert_color\<close> is not: it restores the balance of the tree by recolouring and
  rotating, so the model takes the rotations as a parameter \<open>rot\<close>, an arbitrary function from
  the tree with the new leaf to a list of rotations, and no theorem depends on which ones they are.
\<close>

section \<open>Free extents and their order\<close>

abbreviation MAX_EXTENT_LENGTH :: u32 where
  "MAX_EXTENT_LENGTH \<equiv> 1024"

datatype free_extent = Free_Extent (free_start: u32) (free_length: u32)

text \<open>
  The order in which the descent of \<open>portfs_extent_tree_insert\<close> arranges the nodes: longer extents
  first, extents of one length by their start.
\<close>

instantiation free_extent :: linorder
begin

definition less_eq_free_extent :: "free_extent \<Rightarrow> free_extent \<Rightarrow> bool" where
  "less_eq_free_extent x y \<longleftrightarrow> free_length x > free_length y \<or>
     free_length x = free_length y \<and> free_start x \<le> free_start y"

definition less_free_extent :: "free_extent \<Rightarrow> free_extent \<Rightarrow> bool" where
  "less_free_extent x y \<longleftrightarrow> free_length x > free_length y \<or>
     free_length x = free_length y \<and> free_start x < free_start y"

instance
  by standard (auto simp: less_eq_free_extent_def less_free_extent_def free_extent.expand)

end

section \<open>Operations\<close>

text \<open>The search for the link of the new node, and \<open>rb_link_node\<close>.\<close>

fun link_node :: "free_extent \<Rightarrow> free_extent tree \<Rightarrow> free_extent tree" where
  "link_node new Leaf = Node Leaf new Leaf"
| "link_node new (Node l this r) =
     (if free_length new > free_length this then Node (link_node new l) this r
      else if free_length new < free_length this then Node l this (link_node new r)
      else if free_start new < free_start this then Node (link_node new l) this r
      else Node l this (link_node new r))"

text \<open>
  A rotation: the path to the subtree it turns (\<open>True\<close> for left) and its direction
  (\<open>True\<close> for a left rotation).
\<close>

type_synonym rotation = "bool list \<times> bool"

fun rotate :: "bool list \<Rightarrow> bool \<Rightarrow> 'a tree \<Rightarrow> 'a tree" where
  "rotate [] True (Node a x (Node b y c)) = Node (Node a x b) y c"
| "rotate [] False (Node (Node a x b) y c) = Node a x (Node b y c)"
| "rotate (True # p) d (Node l x r) = Node (rotate p d l) x r"
| "rotate (False # p) d (Node l x r) = Node l x (rotate p d r)"
| "rotate p d t = t"

definition rb_insert_color :: "(free_extent tree \<Rightarrow> rotation list) \<Rightarrow> free_extent tree \<Rightarrow> free_extent tree" where
  "rb_insert_color rot t = fold (\<lambda>(p, d). rotate p d) (rot t) t"

definition portfs_extent_tree_insert ::
    "(free_extent tree \<Rightarrow> rotation list) \<Rightarrow> free_extent tree \<Rightarrow> free_extent \<Rightarrow> free_extent tree" where
  "portfs_extent_tree_insert rot t new = rb_insert_color rot (link_node new t)"

text \<open>
  \<open>portfs_build_extent_tree\<close>: \<open>i\<close> and \<open>len\<close> are the loop's variables, \<open>km i\<close> tells whether the
  \<open>kmalloc\<close> made when the loop stands at block \<open>i\<close> succeeds (at \<open>total_blocks\<close> for the one after
  the loop).  The tree built so far is kept when an allocation fails.
\<close>

function build_loop ::
    "(free_extent tree \<Rightarrow> rotation list) \<Rightarrow> (u32 \<Rightarrow> bool) \<Rightarrow> portfs_superblock \<Rightarrow>
     u32 \<Rightarrow> u32 \<Rightarrow> free_extent tree \<Rightarrow> ((errno + unit) \<times> free_extent tree) option" where
  "build_loop rot km psb i len t =
     (if i < total_blocks psb then do {
        allocated \<leftarrow> is_block_allocated (block_bitmap psb) i;
        if \<not> allocated \<and> len < MAX_EXTENT_LENGTH then build_loop rot km psb (i + 1) (len + 1) t
        else if len > 0 then
          (if km i
           then build_loop rot km psb (i + 1) 0
                  (portfs_extent_tree_insert rot t (Free_Extent (i - len) len))
           else Some (Inl ENOMEM, t))
        else build_loop rot km psb (i + 1) len t }
      else if len > 0 then
        (if km (total_blocks psb)
         then Some (Inr (), portfs_extent_tree_insert rot t (Free_Extent (total_blocks psb - len) len))
         else Some (Inl ENOMEM, t))
      else Some (Inr (), t))"
  by pat_completeness auto
termination
  by (relation "measure (\<lambda>(rot, km, psb, i, len, t). unat (total_blocks psb) - unat i)")
    (auto simp: unat_simps word_less_nat_alt)

declare build_loop.simps [simp del]

definition portfs_build_extent_tree ::
    "(free_extent tree \<Rightarrow> rotation list) \<Rightarrow> (u32 \<Rightarrow> bool) \<Rightarrow> portfs_superblock \<Rightarrow>
     free_extent tree \<Rightarrow> ((errno + unit) \<times> free_extent tree) option" where
  "portfs_build_extent_tree rot km psb t = build_loop rot km psb (data_start psb) 0 t"

text \<open>
  \<open>rb_first\<close> and \<open>rb_next\<close> walk the tree in order.  \<open>rb_erase\<close> is a parameter; the loop keeps the
  node it stands on, fetches the next one first, erases, and frees the node.  The result holds
  the final tree and the nodes handed to \<open>kfree\<close>.
\<close>

definition rb_first :: "free_extent tree \<Rightarrow> free_extent option" where
  "rb_first t = (case inorder t of [] \<Rightarrow> None | x # xs \<Rightarrow> Some x)"

definition rb_next :: "free_extent tree \<Rightarrow> free_extent \<Rightarrow> free_extent option" where
  "rb_next t x = (case dropWhile (\<lambda>y. y \<noteq> x) (inorder t) of _ # y # _ \<Rightarrow> Some y | _ \<Rightarrow> None)"

partial_function (option) destroy_loop ::
    "(free_extent tree \<Rightarrow> free_extent \<Rightarrow> free_extent tree) \<Rightarrow> free_extent option \<Rightarrow>
     free_extent tree \<Rightarrow> free_extent list \<Rightarrow> (free_extent tree \<times> free_extent list) option" where
  "destroy_loop erase node t freed =
     (case node of
        None \<Rightarrow> Some (t, freed)
      | Some x \<Rightarrow> destroy_loop erase (rb_next t x) (erase t x) (freed @ [x]))"

declare destroy_loop.simps [code]

definition portfs_destroy_extent_tree ::
    "(free_extent tree \<Rightarrow> free_extent \<Rightarrow> free_extent tree) \<Rightarrow> free_extent tree \<Rightarrow>
     (free_extent tree \<times> free_extent list) option" where
  "portfs_destroy_extent_tree erase t = destroy_loop erase (rb_first t) t []"

definition portfs_extent_tree_remove ::
    "(free_extent tree \<Rightarrow> free_extent \<Rightarrow> free_extent tree) \<Rightarrow> free_extent tree \<Rightarrow> free_extent \<Rightarrow>
     free_extent tree \<times> free_extent list" where
  "portfs_extent_tree_remove erase t x = (erase t x, [x])"

definition portfs_extent_tree_empty :: "free_extent tree \<Rightarrow> bool" where
  "portfs_extent_tree_empty t \<longleftrightarrow> t = Leaf"

section \<open>The interface of the pool of free extents\<close>

locale extent_pool =
  fixes add :: "'t \<Rightarrow> 'a::linorder \<Rightarrow> 't"
    and elems :: "'t \<Rightarrow> 'a list"
  assumes add_sorted: "sorted (elems t) \<Longrightarrow> sorted (elems (add t x))"
    and add_mset_law: "mset (elems (add t x)) = add_mset x (mset (elems t))"
begin

lemma add_set: "set (elems (add t x)) = insert x (set (elems t))"
  using arg_cong [OF add_mset_law [of t x], of set_mset] by simp

lemma add_elems: "sorted (elems t) \<Longrightarrow> elems (add t x) = insort x (elems t)"
  by (metis add_mset_law add_sorted mset_insort properties_for_sort sorted_insort)

lemma add_distinct: "distinct (elems t) \<Longrightarrow> x \<notin> set (elems t) \<Longrightarrow> distinct (elems (add t x))"
  by (metis add_mset_law distinct.simps(2) mset.simps(2) mset_eq_imp_distinct_iff)

lemma add_all: "sorted (elems t) \<Longrightarrow> elems (foldl add t xs) = sort (elems t @ xs)"
proof (induction xs arbitrary: t)
  case Nil
  then show ?case by (simp add: sorted_sort_id)
next
  case (Cons x xs)
  have "elems (foldl add (add t x) xs) = sort (elems (add t x) @ xs)"
    by (rule Cons.IH) (rule add_sorted [OF Cons.prems])
  also have "\<dots> = sort (elems t @ x # xs)"
    by (rule properties_for_sort) (simp_all add: add_mset_law)
  finally show ?case by simp
qed

end

lemma link_node_less:
  "link_node new (Node l this r) =
    (if new < this then Node (link_node new l) this r else Node l this (link_node new r))"
  by (auto simp: less_free_extent_def)

lemma mset_link_node: "mset (inorder (link_node new t)) = add_mset new (mset (inorder t))"
  by (induction t) (auto simp: link_node_less simp del: link_node.simps(2))

lemma set_link_node: "set_tree (link_node new t) = insert new (set_tree t)"
  by (metis insort_is_Cons mset_link_node set_inorder set_mset_add_mset_insert set_mset_mset)

lemma sorted_link_node: "sorted (inorder t) \<Longrightarrow> sorted (inorder (link_node new t))"
  by (induction t)
    (fastforce simp: link_node_less sorted_append set_link_node simp del: link_node.simps(2))+

lemma inorder_rotate [simp]: "inorder (rotate p d t) = inorder t"
  by (induction p d t rule: rotate.induct) auto

lemma inorder_rb_insert_color [simp]: "inorder (rb_insert_color rot t) = inorder t"
proof -
  have "inorder (fold (\<lambda>(p, d). rotate p d) rs t) = inorder t" for rs
    by (induction rs arbitrary: t) (auto simp: case_prod_beta)
  then show ?thesis by (simp add: rb_insert_color_def)
qed

interpretation pool: extent_pool "portfs_extent_tree_insert rot" inorder for rot
  by unfold_locales (simp_all add: portfs_extent_tree_insert_def mset_link_node sorted_link_node)

section \<open>What the pool holds\<close>

definition fx_blocks :: "free_extent \<Rightarrow> nat set" where
  "fx_blocks x = {unat (free_start x)..<unat (free_start x) + unat (free_length x)}"

text \<open>
  A pool drawn from the free blocks of the data area: nonempty extents of bounded length, made of
  free blocks, pairwise disjoint, in the order of the tree.
\<close>

definition free_pool :: "portfs_superblock \<Rightarrow> free_extent list \<Rightarrow> bool" where
  "free_pool psb xs \<longleftrightarrow> sorted xs \<and> distinct xs \<and>
     (\<forall>x \<in> set xs. 0 < free_length x \<and> free_length x \<le> MAX_EXTENT_LENGTH \<and> fx_blocks x \<subseteq> free_blocks psb) \<and>
     (\<forall>x \<in> set xs. \<forall>y \<in> set xs. x \<noteq> y \<longrightarrow> fx_blocks x \<inter> fx_blocks y = {})"

text \<open>
  The scan passes over the block that follows an extent of maximal length: it ends that extent
  and starts no new one.
\<close>

definition skipped :: "free_extent list \<Rightarrow> nat \<Rightarrow> bool" where
  "skipped xs b \<longleftrightarrow> (\<exists>x \<in> set xs. free_length x = MAX_EXTENT_LENGTH \<and>
     b = unat (free_start x) + unat (free_length x))"

definition build_inv :: "portfs_superblock \<Rightarrow> u32 \<Rightarrow> u32 \<Rightarrow> free_extent list \<Rightarrow> bool" where
  "build_inv psb i len xs \<longleftrightarrow>
     unat (data_start psb) + unat len \<le> unat i \<and> unat i \<le> unat (total_blocks psb) \<and>
     len \<le> MAX_EXTENT_LENGTH \<and>
     {unat i - unat len..<unat i} \<subseteq> free_blocks psb \<and>
     free_pool psb xs \<and>
     (\<forall>x \<in> set xs. fx_blocks x \<subseteq> {..<unat i - unat len}) \<and>
     (\<forall>b \<in> free_blocks psb. b < unat i - unat len \<longrightarrow> b \<in> (\<Union>x \<in> set xs. fx_blocks x) \<or> skipped xs b)"

lemma build_inv_grow:
  assumes "build_inv psb i len xs" and "i < total_blocks psb" and "len < MAX_EXTENT_LENGTH"
    and "unat i \<in> free_blocks psb"
  shows "build_inv psb (i + 1) (len + 1) xs"
proof -
  have "unat (i + 1) = Suc (unat i)" "unat (len + 1) = Suc (unat len)"
    using assms(2,3) by (simp_all add: unat_Suc_less)
  with assms show ?thesis
    by (auto simp: build_inv_def word_less_nat_alt word_le_nat_alt less_Suc_eq)
qed

lemma build_inv_skip:
  assumes "build_inv psb i 0 xs" and "i < total_blocks psb" and "unat i \<notin> free_blocks psb"
  shows "build_inv psb (i + 1) 0 xs"
  using assms
  by (simp add: build_inv_def unat_Suc_less word_less_nat_alt less_Suc_eq lessThan_Suc) blast

lemma flush_blocks:
  assumes "build_inv psb i len xs"
  shows "fx_blocks (Free_Extent (i - len) len) = {unat i - unat len..<unat i}"
proof -
  have "len \<le> i" using assms by (simp add: build_inv_def word_le_nat_alt)
  then show ?thesis by (simp add: fx_blocks_def unat_sub_no_wrap word_le_nat_alt)
qed

lemma free_pool_add:
  assumes "free_pool psb xs" and "sorted ys" and "mset ys = add_mset x (mset xs)"
    and "0 < free_length x" and "free_length x \<le> MAX_EXTENT_LENGTH" and "fx_blocks x \<subseteq> free_blocks psb"
    and "\<forall>y \<in> set xs. fx_blocks x \<inter> fx_blocks y = {}"
  shows "free_pool psb ys"
proof -
  have set_ys: "set ys = insert x (set xs)"
    using arg_cong [OF assms(3), of set_mset] by simp
  have "fx_blocks x \<noteq> {}"
    using assms(4) by (simp add: fx_blocks_def word_less_nat_alt)
  with assms(7) have "x \<notin> set xs" by auto
  with assms(1,3) have "distinct ys"
    by (metis distinct.simps(2) free_pool_def mset.simps(2) mset_eq_imp_distinct_iff)
  with assms set_ys show ?thesis
    by (auto simp: free_pool_def)
qed

text \<open>
  One flush of the scan keeps the invariant: the run before block \<open>i\<close> becomes an extent, and block
  \<open>i\<close> is either taken or the one that is passed over.
\<close>

lemma build_inv_flush:
  assumes inv: "build_inv psb i len xs" and len: "0 < len"
    and ys: "sorted ys" "mset ys = add_mset (Free_Extent (i - len) len) (mset xs)"
  shows "free_pool psb ys"
    and "\<forall>y \<in> set ys. fx_blocks y \<subseteq> {..<unat i}"
    and "\<forall>b \<in> free_blocks psb. b < unat i \<longrightarrow> b \<in> (\<Union>x \<in> set ys. fx_blocks x) \<or> skipped ys b"
    and "len = MAX_EXTENT_LENGTH \<Longrightarrow> skipped ys (unat i)"
proof -
  let ?x = "Free_Extent (i - len) len"
  have set_ys: "set ys = insert ?x (set xs)"
    using arg_cong [OF ys(2), of set_mset] by simp
  note x_blocks = flush_blocks [OF inv]
  have below: "\<forall>y \<in> set xs. fx_blocks y \<subseteq> {..<unat i - unat len}"
    using inv by (simp add: build_inv_def)
  have len_i: "len \<le> i" "unat len \<le> unat i"
    using inv by (simp_all add: build_inv_def word_le_nat_alt)
  show "free_pool psb ys"
  proof (rule free_pool_add [OF _ ys])
    show "\<forall>y \<in> set xs. fx_blocks ?x \<inter> fx_blocks y = {}"
      using below by (fastforce simp: x_blocks)
  qed (use inv len x_blocks in \<open>auto simp: build_inv_def\<close>)
  show "\<forall>y \<in> set ys. fx_blocks y \<subseteq> {..<unat i}"
    using below by (fastforce simp: set_ys x_blocks)
  have mono: "skipped xs b \<Longrightarrow> skipped ys b" for b by (auto simp: skipped_def set_ys)
  have covered: "\<forall>b \<in> free_blocks psb. b < unat i - unat len \<longrightarrow>
      b \<in> (\<Union>x \<in> set xs. fx_blocks x) \<or> skipped xs b"
    using inv by (simp add: build_inv_def)
  show "\<forall>b \<in> free_blocks psb. b < unat i \<longrightarrow> b \<in> (\<Union>x \<in> set ys. fx_blocks x) \<or> skipped ys b"
  proof (intro ballI impI)
    fix b assume b: "b \<in> free_blocks psb" "b < unat i"
    show "b \<in> (\<Union>x \<in> set ys. fx_blocks x) \<or> skipped ys b"
    proof (cases "b < unat i - unat len")
      case True
      with b covered mono show ?thesis by (auto simp: set_ys)
    next
      case False
      with b have "b \<in> fx_blocks ?x" by (simp add: x_blocks)
      then show ?thesis by (auto simp: set_ys)
    qed
  qed
  assume "len = MAX_EXTENT_LENGTH"
  then show "skipped ys (unat i)"
    using len_i by (auto simp: skipped_def set_ys unat_sub_no_wrap)
qed

definition covers_free :: "portfs_superblock \<Rightarrow> free_extent list \<Rightarrow> bool" where
  "covers_free psb xs \<longleftrightarrow>
     (\<forall>b \<in> free_blocks psb. b \<in> (\<Union>x \<in> set xs. fx_blocks x) \<or> skipped xs b)"

lemma build_inv_end:
  assumes "build_inv psb i len xs" and "\<not> i < total_blocks psb"
  shows "i = total_blocks psb"
  using assms by (simp add: build_inv_def word_less_nat_alt word_unat_eq_iff)

lemma build_inv_restart:
  assumes inv: "build_inv psb i len xs" and i: "i < total_blocks psb" and len: "0 < len"
    and stop: "unat i \<notin> free_blocks psb \<or> len = MAX_EXTENT_LENGTH"
    and ys: "sorted ys" "mset ys = add_mset (Free_Extent (i - len) len) (mset xs)"
  shows "build_inv psb (i + 1) 0 ys"
proof -
  note flush = build_inv_flush [OF inv len ys]
  have "\<forall>b \<in> free_blocks psb. b < Suc (unat i) \<longrightarrow> b \<in> (\<Union>x \<in> set ys. fx_blocks x) \<or> skipped ys b"
    using flush(3) flush(4) stop by (auto simp: less_Suc_eq)
  moreover have "\<forall>y \<in> set ys. fx_blocks y \<subseteq> {..<Suc (unat i)}"
    using flush(2) by (fastforce simp: lessThan_Suc)
  ultimately show ?thesis
    using inv i flush(1) by (simp add: build_inv_def unat_Suc_less word_less_nat_alt)
qed

lemma build_loop_spec:
  assumes "geometry psb" and "build_inv psb i len (inorder t)"
  shows "\<exists>r t'. build_loop rot km psb i len t = Some (r, t') \<and> free_pool psb (inorder t') \<and>
    (r = Inr () \<longrightarrow> covers_free psb (inorder t')) \<and> ((\<forall>j. km j) \<longrightarrow> r = Inr ())"
  using assms
proof (induction rot km psb i len t rule: build_loop.induct)
  case (1 rot km psb i len t)
  note inv = "1.prems"(2)
  let ?t' = "portfs_extent_tree_insert rot t (Free_Extent (i - len) len)"
  have pool_t: "free_pool psb (inorder t)" using inv by (simp add: build_inv_def)
  then have sorted_t: "sorted (inorder t)" by (simp add: free_pool_def)
  note added = pool.add_sorted [OF sorted_t, of rot] pool.add_mset_law [of rot t]
  show ?case
  proof (cases "i < total_blocks psb")
    case True
    define a where "a \<longleftrightarrow> unat i \<in> bits_of (block_bitmap psb)"
    have alloc: "is_block_allocated (block_bitmap psb) i = Some a"
      using True "1.prems"(1) by (simp add: a_def is_block_allocated_bits geometry_def word_less_nat_alt)
    have free_iff: "unat i \<in> free_blocks psb \<longleftrightarrow> \<not> a"
      using True inv by (auto simp: a_def free_blocks_def build_inv_def word_less_nat_alt)
    consider (grow) "\<not> a" "len < MAX_EXTENT_LENGTH"
      | (flush) "a \<or> \<not> len < MAX_EXTENT_LENGTH" "0 < len"
      | (skip) "a" "len = 0"
      by (cases "len = 0") (auto simp: word_gt_0)
    then show ?thesis
    proof cases
      case grow
      with "1.IH"(1) [OF True alloc] "1.prems"(1) build_inv_grow [OF inv True grow(2)] free_iff
      show ?thesis
        using True alloc by (simp add: build_loop.simps [of rot km psb i])
    next
      case flush
      have stop: "unat i \<notin> free_blocks psb \<or> len = MAX_EXTENT_LENGTH"
        using flush(1) free_iff inv by (auto simp: build_inv_def)
      have inv': "build_inv psb (i + 1) 0 (inorder ?t')"
        by (rule build_inv_restart [OF inv True flush(2) stop added])
      show ?thesis
      proof (cases "km i")
        case km: True
        from "1.IH"(2) [OF True alloc _ flush(2) km "1.prems"(1) inv'] show ?thesis
          using True alloc flush km by (auto simp: build_loop.simps [of rot km psb i])
      next
        case km: False
        then show ?thesis
          using True alloc flush pool_t by (auto simp: build_loop.simps [of rot km psb i])
      qed
    next
      case skip
      then have inv': "build_inv psb (i + 1) 0 (inorder t)"
        using build_inv_skip [OF _ True] inv free_iff by simp
      with "1.IH"(3) [OF True alloc] skip "1.prems"(1) show ?thesis
        using True alloc by (simp add: build_loop.simps [of rot km psb i])
    qed
  next
    case False
    note i_end = build_inv_end [OF inv False]
    have all_below: "b < unat i" if "b \<in> free_blocks psb" for b
      using that by (simp add: i_end free_blocks_def)
    show ?thesis
    proof (cases "0 < len")
      case True
      note flush = build_inv_flush [OF inv True added]
      have "covers_free psb (inorder ?t')"
        using flush(3) all_below by (simp add: covers_free_def)
      then show ?thesis
        using True pool_t flush(1) by (auto simp: build_loop.simps [of rot km psb "total_blocks psb"] i_end)
    next
      case len0: False
      have "covers_free psb (inorder t)"
        using inv len0 all_below by (simp add: covers_free_def build_inv_def word_gt_0)
      with len0 pool_t show ?thesis
        by (auto simp: build_loop.simps [of rot km psb "total_blocks psb"] i_end word_gt_0)
    qed
  qed
qed

lemma build_inv_start: "geometry psb \<Longrightarrow> build_inv psb (data_start psb) 0 []"
  by (auto simp: build_inv_def geometry_def free_pool_def word_le_nat_alt free_blocks_def)

lemma portfs_build_extent_tree_spec:
  assumes "geometry psb"
  shows "\<exists>r t. portfs_build_extent_tree rot km psb Leaf = Some (r, t) \<and> free_pool psb (inorder t) \<and>
    (r = Inr () \<longrightarrow> covers_free psb (inorder t)) \<and> ((\<forall>j. km j) \<longrightarrow> r = Inr ())"
  using build_loop_spec [OF assms, of "data_start psb" 0 Leaf] build_inv_start [OF assms]
  by (simp add: portfs_build_extent_tree_def)

section \<open>Destroying the tree\<close>

text \<open>The documented effect of \<open>rb_erase\<close> on a node of the tree: only that node leaves the order.\<close>

definition rb_erase_law :: "(free_extent tree \<Rightarrow> free_extent \<Rightarrow> free_extent tree) \<Rightarrow> bool" where
  "rb_erase_law erase \<longleftrightarrow>
     (\<forall>t x. x \<in> set_tree t \<longrightarrow> inorder (erase t x) = remove1 x (inorder t))"

lemma destroy_loop_all:
  assumes "rb_erase_law erase"
  shows "destroy_loop erase (rb_first t) t freed = Some (Leaf, freed @ inorder t)"
proof (induction "inorder t" arbitrary: t freed)
  case Nil
  then have "t = Leaf" using inorder.elims by fastforce
  then show ?case by (subst destroy_loop.simps) (simp add: rb_first_def)
next
  case (Cons x xs)
  have t: "inorder t = x # xs" using Cons.hyps(2) by simp
  have first: "rb_first t = Some x" by (simp add: rb_first_def t)
  have "x \<in> set_tree t" by (simp flip: set_inorder add: t)
  with assms t have rest: "inorder (erase t x) = xs" by (simp add: rb_erase_law_def)
  have nxt: "rb_next t x = rb_first (erase t x)"
    by (simp add: rb_next_def rb_first_def t rest split: list.split)
  have "destroy_loop erase (rb_first t) t freed =
      destroy_loop erase (rb_first (erase t x)) (erase t x) (freed @ [x])"
    by (subst destroy_loop.simps) (simp add: first nxt)
  also have "\<dots> = Some (Leaf, freed @ inorder t)"
    using Cons.hyps(1) [OF rest [symmetric]] by (simp add: rest t)
  finally show ?case .
qed

lemma portfs_destroy_extent_tree_all:
  "rb_erase_law erase \<Longrightarrow> portfs_destroy_extent_tree erase t = Some (Leaf, inorder t)"
  by (simp add: portfs_destroy_extent_tree_def destroy_loop_all)

text \<open>A tree that is a list: the reference eraser rebuilds it without the node.\<close>

fun spine :: "'a list \<Rightarrow> 'a tree" where
  "spine [] = Leaf"
| "spine (x # xs) = Node Leaf x (spine xs)"

lemma inorder_spine [simp]: "inorder (spine xs) = xs"
  by (induction xs) auto

definition spine_erase :: "free_extent tree \<Rightarrow> free_extent \<Rightarrow> free_extent tree" where
  "spine_erase t x = spine (remove1 x (inorder t))"

lemma spine_erase_law: "rb_erase_law spine_erase"
  by (simp add: rb_erase_law_def spine_erase_def)

section \<open>A run of free blocks longer than the maximal extent\<close>

lemma build_loop_run:
  assumes "unat i + n \<le> unat (total_blocks psb)" and "unat len + n \<le> 1024" and "geometry psb"
    and "{unat i..<unat i + n} \<subseteq> free_blocks psb"
  shows "build_loop rot km psb i len t = build_loop rot km psb (i + of_nat n) (len + of_nat n) t"
  using assms
proof (induction n arbitrary: i len)
  case 0
  then show ?case by simp
next
  case (Suc n)
  have i: "i < total_blocks psb" using Suc.prems(1) by (simp add: word_less_nat_alt)
  have len: "len < MAX_EXTENT_LENGTH" using Suc.prems(2) by (simp add: word_less_nat_alt)
  have "unat i \<in> free_blocks psb" using Suc.prems(4) by auto
  then have alloc: "is_block_allocated (block_bitmap psb) i = Some False"
    using Suc.prems(3) i
    by (simp add: is_block_allocated_bits geometry_def free_blocks_def word_less_nat_alt)
  have "unat (i + 1) = Suc (unat i)" "unat (len + 1) = Suc (unat len)"
    using i len by (simp_all add: unat_Suc_less)
  with Suc.prems have "build_loop rot km psb (i + 1) (len + 1) t =
      build_loop rot km psb (i + 1 + of_nat n) (len + 1 + of_nat n) t"
    by (intro Suc.IH) auto
  moreover have "build_loop rot km psb i len t = build_loop rot km psb (i + 1) (len + 1) t"
    using i len alloc by (simp add: build_loop.simps [of rot km psb i])
  ultimately show ?case by (simp add: ac_simps)
qed

lemma bits_of_zeros [simp]: "bits_of (replicate n 0) = {}"
  by (auto simp: bits_of_def less_mult_imp_div_less mult.commute)

section \<open>Properties\<close>

text \<open>
  C40: The tree of free extents is a search tree for the code's order (longest first, then by
  start), whatever rotations \<open>rb_insert_color\<close> performs: inserting a sequence of extents leaves an
  in-order traversal that is the sorted list of the old and the new extents.
\<close>

theorem extent_tree_inserts_sort:
  assumes "sorted (inorder t)"
  shows "inorder (foldl (portfs_extent_tree_insert rot) t xs) = sort (inorder t @ xs)"
  using assms by (rule pool.add_all)

theorem extent_tree_inserts_sort_witness:
  "inorder (foldl (portfs_extent_tree_insert (\<lambda>t. [([], True)])) (Node Leaf (Free_Extent 9 4) Leaf)
      [Free_Extent 2 4, Free_Extent 30 7]) =
   sort [Free_Extent 9 4, Free_Extent 2 4, Free_Extent 30 7]"
  using extent_tree_inserts_sort
    [of "Node Leaf (Free_Extent 9 4) Leaf" "\<lambda>t. [([], True)]" "[Free_Extent 2 4, Free_Extent 30 7]"]
  by simp

text \<open>
  C21: The tree built for an allocation is sound for every outcome of \<open>kmalloc\<close>: its extents are
  not empty, no longer than 1024 blocks, in order, pairwise disjoint and made of free blocks of
  the data area only.  When memory suffices the build succeeds, and a free block that is missing
  from the tree is the one that directly follows an extent of 1024 blocks.
\<close>

theorem build_extent_tree_sound_and_complete:
  assumes "geometry psb"
  shows "\<exists>r t. portfs_build_extent_tree rot km psb Leaf = Some (r, t) \<and>
    sorted (inorder t) \<and> distinct (inorder t) \<and>
    (\<forall>x \<in> set_tree t. 0 < free_length x \<and> free_length x \<le> 1024 \<and> fx_blocks x \<subseteq> free_blocks psb) \<and>
    (\<forall>x \<in> set_tree t. \<forall>y \<in> set_tree t. x \<noteq> y \<longrightarrow> fx_blocks x \<inter> fx_blocks y = {}) \<and>
    ((\<forall>i. km i) \<longrightarrow> r = Inr () \<and>
      (\<forall>b \<in> free_blocks psb. (\<exists>x \<in> set_tree t. b \<in> fx_blocks x) \<or>
        (\<exists>x \<in> set_tree t. free_length x = 1024 \<and> b = unat (free_start x) + 1024)))"
proof -
  obtain r t where "portfs_build_extent_tree rot km psb Leaf = Some (r, t)" "free_pool psb (inorder t)"
      "r = Inr () \<longrightarrow> covers_free psb (inorder t)" "(\<forall>j. km j) \<longrightarrow> r = Inr ()"
    using portfs_build_extent_tree_spec [OF assms] by blast
  then show ?thesis
    by (intro exI [of _ r] exI [of _ t])
      (fastforce simp: free_pool_def covers_free_def skipped_def)
qed

theorem build_extent_tree_sound_and_complete_witness:
  "\<exists>r t. portfs_build_extent_tree (\<lambda>t. []) (\<lambda>i. True) (sample_super [0x3C, 0xF0]) Leaf = Some (r, t) \<and>
    r = Inr () \<and> (\<forall>x \<in> set_tree t. fx_blocks x \<subseteq> free_blocks (sample_super [0x3C, 0xF0]))"
  using build_extent_tree_sound_and_complete [of "sample_super [0x3C, 0xF0]" "\<lambda>t. []" "\<lambda>i. True"]
  by (fastforce simp: geometry_def sample_super_def)

text \<open>
  Destroying a tree terminates, hands every node to \<open>kfree\<close> exactly once, in order, and leaves
  an empty tree, for any \<open>rb_erase\<close> that removes exactly the given node.
\<close>

theorem destroy_extent_tree_frees_all:
  assumes "rb_erase_law erase"
  shows "\<exists>t' freed. portfs_destroy_extent_tree erase t = Some (t', freed) \<and>
    portfs_extent_tree_empty t' \<and> freed = inorder t"
  using portfs_destroy_extent_tree_all [OF assms] by (simp add: portfs_extent_tree_empty_def)

theorem destroy_extent_tree_frees_all_witness:
  "\<exists>t' freed. portfs_destroy_extent_tree spine_erase (Node (Node Leaf (Free_Extent 5 9) Leaf) (Free_Extent 2 3) Leaf) =
      Some (t', freed) \<and> portfs_extent_tree_empty t' \<and> freed = [Free_Extent 5 9, Free_Extent 2 3]"
  using destroy_extent_tree_frees_all
    [OF spine_erase_law, of "Node (Node Leaf (Free_Extent 5 9) Leaf) (Free_Extent 2 3) Leaf"]
  by simp

text \<open>
  In a run of exactly 1025 free blocks the scan finds one extent of 1024 blocks and loses the
  last block: it is free but belongs to no extent of the tree, so no allocation can hand it out
  while the run exists.
\<close>

theorem full_run_loses_next_block:
  assumes "geometry psb" and "\<And>i. km i" and "unat (total_blocks psb) = unat (data_start psb) + 1025"
    and "free_blocks psb = {unat (data_start psb)..<unat (total_blocks psb)}"
  shows "\<exists>t. portfs_build_extent_tree rot km psb Leaf = Some (Inr (), t) \<and>
    inorder t = [Free_Extent (data_start psb) 1024] \<and>
    unat (data_start psb) + 1024 \<in> free_blocks psb - (\<Union>x \<in> set_tree t. fx_blocks x)"
proof -
  let ?ds = "data_start psb" and ?tb = "total_blocks psb"
  have last: "?ds + 1024 < ?tb" "unat (?ds + 1024) = unat ?ds + 1024"
  proof -
    have "unat ?ds + unat (1024 :: u32) < 2 ^ 32"
      using assms(3) unat_u32_lt [of ?tb] by simp
    then show "unat (?ds + 1024) = unat ?ds + 1024" by (subst unat_add_no_wrap) simp_all
    then show "?ds + 1024 < ?tb" using assms(3) by (simp add: word_less_nat_alt)
  qed
  have run: "build_loop rot km psb ?ds 0 Leaf = build_loop rot km psb (?ds + 1024) 1024 Leaf"
    using build_loop_run [of ?ds 1024 psb 0 rot km Leaf] assms by auto
  have "unat (?ds + 1024) \<in> free_blocks psb" unfolding assms(4) last(2) using assms(3) by simp
  then have "unat (?ds + 1024) \<notin> bits_of (block_bitmap psb)" by (simp add: free_blocks_def)
  moreover have "unat (?ds + 1024) < 8 * length (block_bitmap psb)"
    using assms(1,3) unfolding last(2) geometry_def by linarith
  ultimately have alloc: "is_block_allocated (block_bitmap psb) (?ds + 1024) = Some False"
    by (simp only: is_block_allocated_bits simp_thms)
  define e where "e = ?ds + 1024"
  note last = last [folded e_def] and alloc = alloc [folded e_def] and run = run [folded e_def]
  have stop: "\<not> e + 1 < ?tb"
    using assms(3) last unat_Suc_less [OF last(1)] by (simp add: word_less_nat_alt)
  have start: "e - 1024 = ?ds" by (simp add: e_def)
  have "build_loop rot km psb e 1024 Leaf =
      build_loop rot km psb (e + 1) 0 (portfs_extent_tree_insert rot Leaf (Free_Extent ?ds 1024))"
    by (subst build_loop.simps) (simp add: last(1) alloc assms(2) start)
  moreover have "build_loop rot km psb (e + 1) 0 t = Some (Inr (), t)" for t
    by (subst build_loop.simps) (simp add: stop)
  ultimately have "build_loop rot km psb e 1024 Leaf =
      Some (Inr (), portfs_extent_tree_insert rot Leaf (Free_Extent ?ds 1024))"
    by simp
  moreover have "inorder (portfs_extent_tree_insert rot Leaf (Free_Extent ?ds 1024)) = [Free_Extent ?ds 1024]"
    by (simp add: portfs_extent_tree_insert_def)
  moreover from this have "set_tree (portfs_extent_tree_insert rot Leaf (Free_Extent ?ds 1024)) = {Free_Extent ?ds 1024}"
    by (simp flip: set_inorder)
  ultimately show ?thesis
    using assms(3,4) by (simp add: portfs_build_extent_tree_def run fx_blocks_def)
qed

theorem full_run_loses_next_block_witness:
  "\<exists>t. portfs_build_extent_tree (\<lambda>t. []) (\<lambda>i. True) ((sample_super (replicate 129 0))\<lparr>total_blocks := 1027\<rparr>) Leaf =
      Some (Inr (), t) \<and> inorder t = [Free_Extent 2 1024]"
  using full_run_loses_next_block
    [of "(sample_super (replicate 129 0))\<lparr>total_blocks := 1027\<rparr>" "\<lambda>i. True" "\<lambda>t. []"]
  by (fastforce simp: geometry_def free_blocks_def sample_super_def)

end
