(* ===== verification/Kernel_Env.thy ===== *)
theory Kernel_Env
  imports Extent_Tree Byte_Order Samples
begin

text \<open>
  What the module calls in the kernel, collected in one record that every operation takes as a
  parameter: the host's byte order, the red-black tree library, the memory allocator's decisions,
  and \<open>kernel_read\<close> and \<open>kernel_write\<close> on the storage file.  The storage file is the list of its
  bytes.  \<open>kernel_ok\<close> states the documented behaviour the theorems rely on; \<open>host_env\<close> is an
  environment that has it.
\<close>

section \<open>The environment\<close>

text \<open>
  The sites that allocate memory.  A free extent of the tree is named by the block at which the
  scan stood, the second call of \<open>portfs_alloc_indirect_extents\<close> within one operation by \<open>True\<close>.
\<close>

datatype alloc_site =
  Site_free_extent u32 | Site_indirect bool | Site_read_buffer | Site_write_buffer |
  Site_dir_entries | Site_dir_buffer | Site_extents_image | Site_dir_image | Site_table_image |
  Site_disk_super | Site_super | Site_disk_table | Site_table | Site_bitmap

record kenv =
  little_endian :: bool
  rb_rotations :: "free_extent tree \<Rightarrow> rotation list"
  rb_erase :: "free_extent tree \<Rightarrow> free_extent \<Rightarrow> free_extent tree"
  kmalloc_ok :: "alloc_site \<Rightarrow> bool"
  kernel_read :: "u8 list \<Rightarrow> u64 \<Rightarrow> u64 \<Rightarrow> errno + u8 list"
  kernel_write :: "u8 list \<Rightarrow> u64 \<Rightarrow> u8 list \<Rightarrow> (errno + u64) \<times> u8 list"
  copy_user_ok :: bool

text \<open>The bytes of a file after a write at position \<open>p\<close> inside it.\<close>

definition overwrite :: "'a list \<Rightarrow> nat \<Rightarrow> 'a list \<Rightarrow> 'a list" where
  "overwrite st p bs = take p st @ bs @ drop (p + length bs) st"

lemma length_overwrite [simp]: "p + length bs \<le> length st \<Longrightarrow> length (overwrite st p bs) = length st"
  by (simp add: overwrite_def)

lemma nth_overwrite:
  assumes "p + length bs \<le> length st" and "i < length st"
  shows "overwrite st p bs ! i = (if p \<le> i \<and> i < p + length bs then bs ! (i - p) else st ! i)"
  using assms by (auto simp: overwrite_def nth_append)

text \<open>
  Reads and writes that lie inside the storage file complete; a file is shorter than \<open>2 ^ 63\<close>
  bytes, the range of \<open>loff_t\<close>.
\<close>

definition storage_law :: "('a::type) kenv_scheme \<Rightarrow> bool" where
  "storage_law K \<longleftrightarrow>
     (\<forall>st p n. length st < 2 ^ 63 \<longrightarrow> unat p + unat n \<le> length st \<longrightarrow>
        kernel_read K st p n = Inr (take (unat n) (drop (unat p) st))) \<and>
     (\<forall>st p bs. length st < 2 ^ 63 \<longrightarrow> unat p + length bs \<le> length st \<longrightarrow>
        kernel_write K st p bs = (Inr (of_nat (length bs)), overwrite st (unat p) bs))"

definition kernel_ok :: "('a::type) kenv_scheme \<Rightarrow> bool" where
  "kernel_ok K \<longleftrightarrow> rb_erase_law (rb_erase K) \<and> storage_law K"

definition memory_ok :: "('a::type) kenv_scheme \<Rightarrow> bool" where
  "memory_ok K \<longleftrightarrow> (\<forall>site. kmalloc_ok K site)"

lemma kernel_ok_erase: "kernel_ok K \<Longrightarrow> rb_erase_law (rb_erase K)"
  by (simp add: kernel_ok_def)

lemma kernel_ok_read:
  "kernel_ok K \<Longrightarrow> length st < 2 ^ 63 \<Longrightarrow> unat p + unat n \<le> length st \<Longrightarrow>
   kernel_read K st p n = Inr (take (unat n) (drop (unat p) st))"
  by (simp add: kernel_ok_def storage_law_def)

lemma kernel_ok_write:
  "kernel_ok K \<Longrightarrow> length st < 2 ^ 63 \<Longrightarrow> unat p + length bs \<le> length st \<Longrightarrow>
   kernel_write K st p bs = (Inr (of_nat (length bs)), overwrite st (unat p) bs)"
  by (simp add: kernel_ok_def storage_law_def)

section \<open>A host that has these properties\<close>

text \<open>A regular file read and written in place, short at its end, without a balanced tree.\<close>

definition file_read :: "u8 list \<Rightarrow> u64 \<Rightarrow> u64 \<Rightarrow> errno + u8 list" where
  "file_read st p n = (if p <s 0 then Inl EINVAL else Inr (take (unat n) (drop (unat p) st)))"

definition file_write :: "u8 list \<Rightarrow> u64 \<Rightarrow> u8 list \<Rightarrow> (errno + u64) \<times> u8 list" where
  "file_write st p bs =
     (if p <s 0 then (Inl EINVAL, st)
      else if unat p + length bs \<le> length st then (Inr (of_nat (length bs)), overwrite st (unat p) bs)
      else (Inl ENOSPC, st))"

definition host_env :: kenv where
  "host_env =
     \<lparr>little_endian = True, rb_rotations = (\<lambda>t. []), rb_erase = spine_erase,
      kmalloc_ok = (\<lambda>site. True), kernel_read = file_read, kernel_write = file_write,
      copy_user_ok = True\<rparr>"

lemma host_env_ok: "kernel_ok host_env"
  using not_negative
  by (fastforce simp: kernel_ok_def storage_law_def host_env_def spine_erase_law file_read_def
      file_write_def)

lemma host_env_memory_ok: "memory_ok host_env"
  by (simp add: memory_ok_def host_env_def)

end
