(* ===== verification/Extent_Alloc.thy ===== *)
theory Extent_Alloc
  imports Kernel_Env
begin

text \<open>
  The block allocator: \<open>kernel/extent_alloc.c\<close>.  The file's entry is passed by value next to the
  superblock and both are returned, since the allocator never reads the file table.  The C
  variable \<open>remaining_blocks\<close> (a signed 64-bit integer) is an \<open>int\<close>: it is positive before each
  subtraction of a 32-bit length, so it cannot overflow.
\<close>

section \<open>Operations\<close>

definition portfs_max_extents :: "portfs_superblock \<Rightarrow> nat" where
  "portfs_max_extents psb = DIRECT_EXTENTS + unat (block_size psb) div 8"

text \<open>
  A block of bytes read into the array of \<open>struct extent\<close>: two integers each, in the host's order
  as the code does not convert them.  A short read leaves the rest of the zeroed buffer.
\<close>

definition raw_extents :: "bool \<Rightarrow> nat \<Rightarrow> u8 list \<Rightarrow> extent list" where
  "raw_extents little n bytes =
     (let buf = bytes @ replicate (8 * n - length bytes) 0
      in map (\<lambda>i. \<lparr>start_block = cpu_word little (take 4 (drop (8 * i) buf)),
                    ext_length = cpu_word little (take 4 (drop (8 * i + 4) buf))\<rparr>) [0..<n])"

definition portfs_alloc_indirect_extents ::
    "('a::type) kenv_scheme \<Rightarrow> bool \<Rightarrow> u8 list \<Rightarrow> portfs_superblock \<Rightarrow> filetable_entry \<Rightarrow>
     ((errno + unit) \<times> portfs_superblock \<times> filetable_entry) option" where
  "portfs_alloc_indirect_extents K retry st psb fe =
     (if indirect_extents fe = Null then
        if \<not> kmalloc_ok K (Site_indirect retry) then Some (Inl ENOMEM, psb, fe)
        else
          let n = unat (block_size psb) div 8;
              fe = fe\<lparr>indirect_extents := Live (replicate n zero_extent)\<rparr>
          in if extents_block (file_u fe) = 0 then do {
               free_block \<leftarrow> find_free_block psb;
               if free_block = -1 then Some (Inl ENOSPC, psb, fe)
               else do {
                 bm \<leftarrow> set_block_allocated (block_bitmap psb) free_block;
                 Some (Inr (), psb\<lparr>block_bitmap := bm\<rparr>,
                       fe\<lparr>file_u := (file_u fe)\<lparr>extents_block := free_block\<rparr>\<rparr>) } }
             else
               let offset = ucast (extents_block (file_u fe) * block_size psb) :: u64
               in case kernel_read K st offset (ucast (block_size psb)) of
                    Inl e \<Rightarrow> Some (Inl EIO, psb, fe)
                  | Inr bytes \<Rightarrow>
                      Some (if length bytes \<noteq> unat (block_size psb) then Inl EIO else Inr (), psb,
                            fe\<lparr>indirect_extents := Live (raw_extents (little_endian K) n bytes)\<rparr>)
      else Some (Inr (), psb, fe))"

text \<open>Storing one free extent at index \<open>idx\<close> of the file.\<close>

definition store_extent ::
    "('a::type) kenv_scheme \<Rightarrow> u8 list \<Rightarrow> nat \<Rightarrow> free_extent \<Rightarrow> portfs_superblock \<Rightarrow> filetable_entry \<Rightarrow>
     (portfs_superblock \<times> filetable_entry) option" where
  "store_extent K st idx x psb fe =
     (let e = \<lparr>start_block = free_start x, ext_length = free_length x\<rparr>
      in if idx < DIRECT_EXTENTS then do {
           des \<leftarrow> array_set (direct_extents (file_u fe)) idx e;
           Some (psb, fe\<lparr>file_u := (file_u fe)\<lparr>direct_extents := des\<rparr>\<rparr>) }
         else do {
           (psb, fe) \<leftarrow> (if indirect_extents fe = Null
              then map_option snd (portfs_alloc_indirect_extents K True st psb fe)
              else Some (psb, fe));
           es \<leftarrow> deref (indirect_extents fe);
           es \<leftarrow> array_set es (idx - DIRECT_EXTENTS) e;
           Some (psb, fe\<lparr>indirect_extents := Live es\<rparr>) })"

text \<open>The loop over the free extents, in the order of the tree.\<close>

fun allocate_loop ::
    "('a::type) kenv_scheme \<Rightarrow> u8 list \<Rightarrow> nat \<Rightarrow> free_extent list \<Rightarrow> nat \<Rightarrow> int \<Rightarrow>
     portfs_superblock \<Rightarrow> filetable_entry \<Rightarrow> (nat \<times> int \<times> portfs_superblock \<times> filetable_entry) option" where
  "allocate_loop K st max_extents [] idx remaining psb fe = Some (idx, remaining, psb, fe)"
| "allocate_loop K st max_extents (x # xs) idx remaining psb fe =
     (if max_extents \<le> idx then Some (idx, remaining, psb, fe)
      else do {
        let remaining = remaining - uint (free_length x);
        bm \<leftarrow> set_blocks_allocated (block_bitmap psb) (free_start x) (free_length x);
        (psb, fe) \<leftarrow> store_extent K st idx x (psb\<lparr>block_bitmap := bm\<rparr>) fe;
        if remaining \<le> 0 then Some (Suc idx, remaining, psb, fe)
        else allocate_loop K st max_extents xs (Suc idx) remaining psb fe })"

text \<open>The number of blocks the allocator looks for: rounded up, then half as many again.\<close>

definition blocks_wanted :: "portfs_superblock \<Rightarrow> u64 \<Rightarrow> u64" where
  "blocks_wanted psb bytes_to_allocate =
     (let blocks = (bytes_to_allocate + ucast (block_size psb) - 1) div ucast (block_size psb)
      in blocks * 1500 div 1000)"

definition portfs_allocate_memory ::
    "('a::type) kenv_scheme \<Rightarrow> u8 list \<Rightarrow> portfs_superblock \<Rightarrow> filetable_entry \<Rightarrow> u64 \<Rightarrow>
     ((errno + unit) \<times> portfs_superblock \<times> filetable_entry) option" where
  "portfs_allocate_memory K st psb fe bytes_to_allocate =
     (if bytes_to_allocate = 0 then Some (Inl EINVAL, psb, fe)
      else if block_size psb = 0 then None
      else do {
        let wanted = sint (blocks_wanted psb bytes_to_allocate);
        (_, tree) \<leftarrow> portfs_build_extent_tree (rb_rotations K)
                        (\<lambda>i. kmalloc_ok K (Site_free_extent i)) psb Leaf;
        let idx = unat (extent_count (file_u fe));
        (psb, fe) \<leftarrow> (if DIRECT_EXTENTS \<le> idx
           then map_option snd (portfs_alloc_indirect_extents K False st psb fe)
           else Some (psb, fe));
        (idx, remaining, psb, fe) \<leftarrow> allocate_loop K st (portfs_max_extents psb) (inorder tree) idx
           wanted psb fe;
        let fe = fe\<lparr>file_u := (file_u fe)\<lparr>extent_count := of_nat idx\<rparr>\<rparr>;
        _ \<leftarrow> portfs_destroy_extent_tree (rb_erase K) tree;
        Some (if remaining \<le> 0 then Inr () else Inl ENOSPC, psb, fe) })"

text \<open>\<open>portfs_get_allocated_size\<close>: the sum of the extents' lengths, then the size in bytes.\<close>

function sum_lengths :: "filetable_entry \<Rightarrow> nat \<Rightarrow> u64 \<Rightarrow> u64 option" where
  "sum_lengths fe i acc =
     (if i < unat (extent_count (file_u fe)) then do {
        ext \<leftarrow> get_extent fe i;
        sum_lengths fe (Suc i) (acc + ucast (ext_length ext)) }
      else Some acc)"
  by pat_completeness auto
termination
  by (relation "measure (\<lambda>(fe, i, total). unat (extent_count (file_u fe)) - i)") auto

declare sum_lengths.simps [simp del]

definition portfs_get_allocated_size :: "filetable_entry \<Rightarrow> u64 \<Rightarrow> u64 option" where
  "portfs_get_allocated_size fe bs = do {
     total_blocks \<leftarrow> sum_lengths fe 0 0;
     Some (total_blocks * bs) }"

section \<open>The extents of a file\<close>

text \<open>All slots of an entry, the direct ones first; a file's extents are the first \<open>extent_count\<close>.\<close>

definition slots :: "filetable_entry \<Rightarrow> extent list" where
  "slots fe = direct_extents (file_u fe) @ (case indirect_extents fe of Live es \<Rightarrow> es | _ \<Rightarrow> [])"

definition file_extents :: "filetable_entry \<Rightarrow> extent list" where
  "file_extents fe = take (unat (extent_count (file_u fe))) (slots fe)"

definition ext_blocks :: "extent \<Rightarrow> nat set" where
  "ext_blocks e = {unat (start_block e)..<unat (start_block e) + unat (ext_length e)}"

definition file_blocks :: "filetable_entry \<Rightarrow> nat set" where
  "file_blocks fe = (\<Union>e \<in> set (file_extents fe). ext_blocks e)"

text \<open>The shape of an entry's arrays, and the files whose extents are allocated and disjoint.\<close>

definition entry_shape :: "portfs_superblock \<Rightarrow> filetable_entry \<Rightarrow> bool" where
  "entry_shape psb fe \<longleftrightarrow>
     length (direct_extents (file_u fe)) = DIRECT_EXTENTS \<and>
     (case indirect_extents fe of
        Null \<Rightarrow> True | Dangling \<Rightarrow> False | Live es \<Rightarrow> length es = unat (block_size psb) div 8)"

definition extents_ok :: "portfs_superblock \<Rightarrow> extent list \<Rightarrow> bool" where
  "extents_ok psb es \<longleftrightarrow>
     (\<forall>e \<in> set es. 0 < ext_length e \<and> unat (data_start psb) \<le> unat (start_block e) \<and>
        unat (start_block e) + unat (ext_length e) \<le> unat (total_blocks psb) \<and>
        ext_blocks e \<subseteq> used_blocks psb) \<and>
     sorted_wrt (\<lambda>e f. ext_blocks e \<inter> ext_blocks f = {}) es"

definition wf_file :: "portfs_superblock \<Rightarrow> filetable_entry \<Rightarrow> bool" where
  "wf_file psb fe \<longleftrightarrow> entry_shape psb fe \<and>
     unat (extent_count (file_u fe)) \<le> length (slots fe) \<and> extents_ok psb (file_extents fe)"

definition wf_super :: "portfs_superblock \<Rightarrow> bool" where
  "wf_super psb \<longleftrightarrow> geometry psb \<and> 0 < block_size psb \<and> portfs_max_extents psb < 2 ^ 16"

lemma get_extent_slots:
  "length (direct_extents (file_u fe)) = DIRECT_EXTENTS \<Longrightarrow> get_extent fe i = array_get (slots fe) i"
  by (cases "indirect_extents fe") (auto simp: get_extent_def slots_def array_get_def nth_append)

lemma slots_extent_count [simp]: "slots (fe\<lparr>file_u := (file_u fe)\<lparr>extent_count := c\<rparr>\<rparr>) = slots fe"
  by (simp add: slots_def)

lemma slots_max: "entry_shape psb fe \<Longrightarrow> length (slots fe) \<le> portfs_max_extents psb"
  by (cases "indirect_extents fe") (auto simp: entry_shape_def slots_def portfs_max_extents_def)

lemma slots_live:
  "entry_shape psb fe \<Longrightarrow> indirect_extents fe = Live es \<Longrightarrow> length (slots fe) = portfs_max_extents psb"
  by (simp add: entry_shape_def slots_def portfs_max_extents_def)

lemma get_extent_file:
  assumes "wf_file psb fe" and "i < unat (extent_count (file_u fe))"
  shows "get_extent fe i = Some (file_extents fe ! i)"
  using assms get_extent_slots [of fe i]
  by (simp add: wf_file_def entry_shape_def file_extents_def array_get_in)

lemma length_file_extents:
  "wf_file psb fe \<Longrightarrow> length (file_extents fe) = unat (extent_count (file_u fe))"
  by (simp add: wf_file_def file_extents_def)

section \<open>The allocator's loop as a function of the pool\<close>

text \<open>
  The extents the loop takes: from the front of the pool, while slots remain, until the request is
  met.
\<close>

fun greedy :: "nat \<Rightarrow> int \<Rightarrow> free_extent list \<Rightarrow> free_extent list" where
  "greedy 0 remaining xs = []"
| "greedy n remaining [] = []"
| "greedy (Suc n) remaining (x # xs) =
     x # (if remaining - uint (free_length x) \<le> 0 then []
          else greedy n (remaining - uint (free_length x)) xs)"

definition pool_size :: "free_extent list \<Rightarrow> int" where
  "pool_size xs = (\<Sum>x \<leftarrow> xs. uint (free_length x))"

lemma pool_size_simps [simp]:
  "pool_size [] = 0"
  "pool_size (x # xs) = uint (free_length x) + pool_size xs"
  by (simp_all add: pool_size_def)

definition to_extent :: "free_extent \<Rightarrow> extent" where
  "to_extent x = \<lparr>start_block = free_start x, ext_length = free_length x\<rparr>"

lemma ext_blocks_to_extent [simp]: "ext_blocks (to_extent x) = fx_blocks x"
  by (simp add: ext_blocks_def fx_blocks_def to_extent_def)

lemma greedy_prefix: "\<exists>zs. xs = greedy n r xs @ zs"
  by (induction n r xs rule: greedy.induct) auto

lemma set_greedy: "set (greedy n r xs) \<subseteq> set xs"
proof -
  obtain zs where "xs = greedy n r xs @ zs" using greedy_prefix by blast
  then have "set xs = set (greedy n r xs) \<union> set zs" by (metis set_append)
  then show ?thesis by blast
qed

lemma length_greedy: "length (greedy n r xs) \<le> n"
  by (induction n r xs rule: greedy.induct) auto

lemma allocate_loop_count:
  assumes "allocate_loop K st M xs idx r psb fe = Some (idx', r', psb', fe')"
  shows "idx' = idx + length (greedy (M - idx) r xs) \<and> r' = r - pool_size (greedy (M - idx) r xs)"
  using assms
proof (induction xs arbitrary: idx r psb fe)
  case Nil
  then show ?case by (cases "M - idx") auto
next
  case (Cons x xs)
  show ?case
  proof (cases "M \<le> idx")
    case True
    with Cons.prems show ?thesis by simp
  next
    case False
    then have "M - idx = Suc (M - Suc idx)" by simp
    with False Cons show ?thesis
      by (fastforce simp: bind_eq_Some_conv split: if_splits prod.splits)
  qed
qed

definition same_but_extents :: "filetable_entry \<Rightarrow> filetable_entry \<Rightarrow> bool" where
  "same_but_extents fe fe' \<longleftrightarrow>
     ino fe' = ino fe \<and> mode fe' = mode fe \<and> size_in_bytes fe' = size_in_bytes fe \<and>
     dir_u fe' = dir_u fe \<and> dir_entries fe' = dir_entries fe \<and>
     extents_block (file_u fe') = extents_block (file_u fe)"

lemma store_extent_slot:
  assumes "entry_shape psb fe" and "idx < length (slots fe)"
  shows "\<exists>fe'. store_extent K st idx x psb fe = Some (psb, fe') \<and> entry_shape psb fe' \<and>
    slots fe' = (slots fe)[idx := to_extent x] \<and> same_but_extents fe fe' \<and>
    extent_count (file_u fe') = extent_count (file_u fe) \<and>
    (\<exists>es. indirect_extents fe' = Live es) = (\<exists>es. indirect_extents fe = Live es)"
  using assms
  by (cases "indirect_extents fe")
    (auto simp: store_extent_def entry_shape_def slots_def array_simps to_extent_def
      same_but_extents_def list_update_append)

lemma entry_shape_bitmap [simp]: "entry_shape (psb\<lparr>block_bitmap := bm\<rparr>) fe = entry_shape psb fe"
  by (simp add: entry_shape_def cong: ptr.case_cong)

lemma geometry_bitmap:
  "length bm = length (block_bitmap psb) \<Longrightarrow> geometry (psb\<lparr>block_bitmap := bm\<rparr>) = geometry psb"
  by (simp add: geometry_def)

lemma same_but_extents_trans:
  "same_but_extents fe fe1 \<Longrightarrow> same_but_extents fe1 fe2 \<Longrightarrow> same_but_extents fe fe2"
  by (simp add: same_but_extents_def)

definition in_storage :: "portfs_superblock \<Rightarrow> free_extent \<Rightarrow> bool" where
  "in_storage psb x \<longleftrightarrow> unat (free_start x) + unat (free_length x) \<le> unat (total_blocks psb)"

lemma set_extent_bits:
  assumes "geometry psb" and "in_storage psb x"
  shows "\<exists>bm. set_blocks_allocated (block_bitmap psb) (free_start x) (free_length x) = Some bm \<and>
    length bm = length (block_bitmap psb) \<and> bits_of bm = bits_of (block_bitmap psb) \<union> fx_blocks x"
proof -
  have "unat (free_start x) + unat (free_length x) < 2 ^ 32"
    using assms(2) by (auto simp: in_storage_def intro: le_less_trans [OF _ unat_u32_lt])
  then show ?thesis
    using set_blocks_allocated_bits [of "free_start x" "free_length x" "block_bitmap psb"] assms
    by (simp add: in_storage_def geometry_def fx_blocks_def)
qed

text \<open>
  Where the slots of the entry suffice for what the loop takes, it does not fault, marks exactly
  the extents it takes and stores them behind the file's own.
\<close>

lemma allocate_loop_spec:
  assumes "geometry psb" and "entry_shape psb fe" and "\<forall>x \<in> set xs. in_storage psb x"
    and "idx + length (greedy (M - idx) r xs) \<le> length (slots fe)"
  shows "\<exists>bm fe'. allocate_loop K st M xs idx r psb fe =
      Some (idx + length (greedy (M - idx) r xs), r - pool_size (greedy (M - idx) r xs),
            psb\<lparr>block_bitmap := bm\<rparr>, fe') \<and>
    length bm = length (block_bitmap psb) \<and>
    bits_of bm = bits_of (block_bitmap psb) \<union> (\<Union>x \<in> set (greedy (M - idx) r xs). fx_blocks x) \<and>
    entry_shape psb fe' \<and> same_but_extents fe fe' \<and> length (slots fe') = length (slots fe) \<and>
    take (idx + length (greedy (M - idx) r xs)) (slots fe') =
      take idx (slots fe) @ map to_extent (greedy (M - idx) r xs)"
  using assms
proof (induction xs arbitrary: idx r psb fe)
  case Nil
  then show ?case
    by (intro exI [of _ "block_bitmap psb"] exI [of _ fe]) (cases "M - idx"; simp add: same_but_extents_def)
next
  case (Cons x xs)
  show ?case
  proof (cases "M \<le> idx")
    case True
    with Cons.prems show ?thesis
      by (intro exI [of _ "block_bitmap psb"] exI [of _ fe]) (simp add: same_but_extents_def)
  next
    case False
    then have M: "M - idx = Suc (M - Suc idx)" by simp
    from Cons.prems(3) have x: "in_storage psb x" by simp
    from set_extent_bits [OF Cons.prems(1) x] obtain bm1 where
      bm1: "set_blocks_allocated (block_bitmap psb) (free_start x) (free_length x) = Some bm1"
        "length bm1 = length (block_bitmap psb)" "bits_of bm1 = bits_of (block_bitmap psb) \<union> fx_blocks x"
      by blast
    have idx: "idx < length (slots fe)" using Cons.prems(4) by (simp add: M)
    let ?psb1 = "psb\<lparr>block_bitmap := bm1\<rparr>"
    have "entry_shape ?psb1 fe" using Cons.prems(2) by simp
    from store_extent_slot [OF this idx, of K st x] obtain fe1 where
      fe1: "store_extent K st idx x ?psb1 fe = Some (?psb1, fe1)" "entry_shape psb fe1"
        "slots fe1 = (slots fe)[idx := to_extent x]" "same_but_extents fe fe1"
      by auto
    define r1 where "r1 = r - uint (free_length x)"
    then have r1: "r - uint (free_length x) = r1" "(r \<le> uint (free_length x)) = (r1 \<le> 0)"
        "\<And>p. r - (uint (free_length x) + p) = r1 - p"
      by simp_all
    have upd: "take (Suc idx) (slots fe1) = take idx (slots fe) @ [to_extent x]"
      using idx by (simp add: fe1(3) take_Suc_conv_app_nth)
    show ?thesis
    proof (cases "r1 \<le> 0")
      case True
      with False bm1 fe1 upd show ?thesis
        by (intro exI [of _ bm1] exI [of _ fe1]) (simp add: M r1)
    next
      case rest: False
      let ?g = "greedy (M - Suc idx) r1 xs"
      have geo: "geometry ?psb1" using Cons.prems(1) bm1(2) by (simp add: geometry_bitmap)
      have len: "Suc idx + length ?g \<le> length (slots fe1)"
        using Cons.prems(4) rest by (simp add: M r1 fe1(3))
      have stor: "\<forall>y \<in> set xs. in_storage ?psb1 y"
        using Cons.prems(3) by (simp add: in_storage_def)
      have shape: "entry_shape ?psb1 fe1" using fe1(2) by simp
      from Cons.IH [OF geo shape stor len] obtain bm fe' where
        IH: "allocate_loop K st M xs (Suc idx) r1 ?psb1 fe1 =
            Some (Suc idx + length ?g, r1 - pool_size ?g, psb\<lparr>block_bitmap := bm\<rparr>, fe')"
          "length bm = length bm1" "bits_of bm = bits_of bm1 \<union> (\<Union>x \<in> set ?g. fx_blocks x)"
          "entry_shape psb fe'" "same_but_extents fe1 fe'" "length (slots fe') = length (slots fe1)"
          "take (Suc idx + length ?g) (slots fe') = take (Suc idx) (slots fe1) @ map to_extent ?g"
        by auto
      with False rest bm1 fe1 upd same_but_extents_trans [OF fe1(4) IH(5)] show ?thesis
        by (intro exI [of _ bm] exI [of _ fe']) (simp add: M r1 Un_assoc)
    qed
  qed
qed

section \<open>The whole allocation\<close>

lemma free_pool_elem:
  assumes "free_pool psb xs" and "x \<in> set xs"
  shows "0 < free_length x" and "unat (data_start psb) \<le> unat (free_start x)"
    and "in_storage psb x" and "fx_blocks x \<subseteq> free_blocks psb"
proof -
  from assms show pos: "0 < free_length x" and sub: "fx_blocks x \<subseteq> free_blocks psb"
    by (simp_all add: free_pool_def)
  from pos have len: "0 < unat (free_length x)" by (simp add: word_less_nat_alt)
  then have "unat (free_start x) \<in> fx_blocks x"
    and "unat (free_start x) + unat (free_length x) - 1 \<in> fx_blocks x"
    by (auto simp: fx_blocks_def)
  then have "unat (free_start x) \<in> free_blocks psb"
    and "unat (free_start x) + unat (free_length x) - 1 \<in> free_blocks psb"
    using sub by blast+
  with len show "unat (data_start psb) \<le> unat (free_start x)" and "in_storage psb x"
    by (auto simp: free_blocks_def in_storage_def)
qed

lemma free_pool_prefix: "free_pool psb (xs @ ys) \<Longrightarrow> free_pool psb xs"
  by (simp add: free_pool_def sorted_append)

lemma free_pool_greedy: "free_pool psb xs \<Longrightarrow> free_pool psb (greedy n r xs)"
  using greedy_prefix free_pool_prefix by metis

lemma free_pool_disjoint: "free_pool psb xs \<Longrightarrow> sorted_wrt (\<lambda>x y. fx_blocks x \<inter> fx_blocks y = {}) xs"
proof (induction xs)
  case (Cons x xs)
  then have "free_pool psb xs" by (simp add: free_pool_def)
  with Cons show ?case by (auto simp: free_pool_def)
qed simp

definition pool_blocks :: "free_extent list \<Rightarrow> nat set" where
  "pool_blocks xs = (\<Union>x \<in> set xs. fx_blocks x)"

text \<open>Extents of the pool appended to a file's own, once their blocks are marked.\<close>

lemma extents_ok_append:
  assumes old: "extents_ok psb es" and pool: "free_pool psb xs"
    and psb': "data_start psb' = data_start psb" "total_blocks psb' = total_blocks psb"
      "used_blocks psb' = used_blocks psb \<union> pool_blocks xs"
  shows "extents_ok psb' (es @ map to_extent xs)"
proof -
  have elem: "0 < ext_length (to_extent x) \<and> unat (data_start psb) \<le> unat (start_block (to_extent x)) \<and>
      unat (start_block (to_extent x)) + unat (ext_length (to_extent x)) \<le> unat (total_blocks psb)"
    if "x \<in> set xs" for x
    using free_pool_elem [OF pool that] by (simp add: to_extent_def in_storage_def)
  have cross: "ext_blocks e \<inter> fx_blocks x = {}" if "e \<in> set es" "x \<in> set xs" for e x
    using old free_pool_elem(4) [OF pool that(2)] that(1)
    by (fastforce simp: extents_ok_def free_blocks_def used_blocks_def)
  show ?thesis
    using old elem cross free_pool_disjoint [OF pool]
    by (auto simp: extents_ok_def psb' pool_blocks_def sorted_wrt_append sorted_wrt_map)
qed

text \<open>
  The allocation puts no new block under the file's indirect extents: they are in memory, or the
  direct slots suffice.
\<close>

definition no_indirect_alloc :: "filetable_entry \<Rightarrow> filetable_entry \<Rightarrow> bool" where
  "no_indirect_alloc fe fe' \<longleftrightarrow> (\<exists>es. indirect_extents fe = Live es) \<or>
     unat (extent_count (file_u fe)) < DIRECT_EXTENTS \<and> unat (extent_count (file_u fe')) \<le> DIRECT_EXTENTS"

text \<open>What remains of the allocation once the tree is known and nothing else is allocated.\<close>

lemma allocate_memory_direct:
  assumes "0 < bytes" and "0 < block_size psb"
    and "DIRECT_EXTENTS \<le> unat (extent_count (file_u fe)) \<longrightarrow> indirect_extents fe \<noteq> Null"
    and "portfs_build_extent_tree (rb_rotations K) (\<lambda>i. kmalloc_ok K (Site_free_extent i)) psb Leaf = Some (b, tree)"
    and "kernel_ok K"
  shows "portfs_allocate_memory K st psb fe bytes =
    do { (idx, remaining, psb, fe) \<leftarrow> allocate_loop K st (portfs_max_extents psb) (inorder tree)
           (unat (extent_count (file_u fe))) (sint (blocks_wanted psb bytes)) psb fe;
         Some (if remaining \<le> 0 then Inr () else Inl ENOSPC, psb,
               fe\<lparr>file_u := (file_u fe)\<lparr>extent_count := of_nat idx\<rparr>\<rparr>) }"
proof -
  have "bytes \<noteq> 0" "block_size psb \<noteq> 0" using assms(1,2) by auto
  moreover have "portfs_destroy_extent_tree (rb_erase K) tree = Some (Leaf, inorder tree)"
    by (rule portfs_destroy_extent_tree_all [OF kernel_ok_erase [OF assms(5)]])
  moreover have "(if DIRECT_EXTENTS \<le> unat (extent_count (file_u fe))
      then map_option snd (portfs_alloc_indirect_extents K False st psb fe) else Some (psb, fe)) = Some (psb, fe)"
    using assms(3) by (simp add: portfs_alloc_indirect_extents_def)
  ultimately show ?thesis
    by (simp add: portfs_allocate_memory_def assms(4) Let_def)
qed

lemma allocate_memory_spec:
  assumes super: "wf_super psb" and wf: "wf_file psb fe" and K: "kernel_ok K" and bytes: "0 < bytes"
    and res: "portfs_allocate_memory K st psb fe bytes = Some (r, psb', fe')"
    and quiet: "no_indirect_alloc fe fe'"
  shows "\<exists>xs bm b tree. free_pool psb xs \<and> psb' = psb\<lparr>block_bitmap := bm\<rparr> \<and>
    portfs_build_extent_tree (rb_rotations K) (\<lambda>i. kmalloc_ok K (Site_free_extent i)) psb Leaf = Some (b, tree) \<and>
    xs = greedy (portfs_max_extents psb - unat (extent_count (file_u fe)))
           (sint (blocks_wanted psb bytes)) (inorder tree) \<and>
    length bm = length (block_bitmap psb) \<and> used_blocks psb' = used_blocks psb \<union> pool_blocks xs \<and>
    file_extents fe' = file_extents fe @ map to_extent xs \<and> same_but_extents fe fe' \<and>
    wf_file psb' fe' \<and>
    r = (if sint (blocks_wanted psb bytes) \<le> pool_size xs then Inr () else Inl ENOSPC)"
proof -
  let ?idx = "unat (extent_count (file_u fe))" and ?M = "portfs_max_extents psb"
  let ?rem = "sint (blocks_wanted psb bytes)"
  have geo: "geometry psb" and bs: "0 < block_size psb" and M: "?M < 2 ^ 16"
    using super by (simp_all add: wf_super_def)
  have shape: "entry_shape psb fe" and count: "?idx \<le> length (slots fe)"
    and old: "extents_ok psb (file_extents fe)"
    using wf by (simp_all add: wf_file_def)
  obtain b tree where tree: "portfs_build_extent_tree (rb_rotations K)
      (\<lambda>i. kmalloc_ok K (Site_free_extent i)) psb Leaf = Some (b, tree)" and pool: "free_pool psb (inorder tree)"
    using portfs_build_extent_tree_spec [OF geo] by blast
  define xs where "xs = greedy (?M - ?idx) ?rem (inorder tree)"
  have "DIRECT_EXTENTS \<le> ?idx \<longrightarrow> indirect_extents fe \<noteq> Null"
    using quiet by (auto simp: no_indirect_alloc_def)
  note direct = allocate_memory_direct [OF bytes bs this tree K, of st]
  from res obtain idx rem fe1 where
    loop: "allocate_loop K st ?M (inorder tree) ?idx ?rem psb fe = Some (idx, rem, psb', fe1)"
    and fe': "fe' = fe1\<lparr>file_u := (file_u fe1)\<lparr>extent_count := of_nat idx\<rparr>\<rparr>"
    and r: "r = (if rem \<le> 0 then Inr () else Inl ENOSPC)"
    unfolding direct by (auto simp: bind_eq_Some_conv split: if_splits)
  have idx: "idx = ?idx + length xs" and rem: "rem = ?rem - pool_size xs"
    using allocate_loop_count [OF loop] by (simp_all add: xs_def)
  have idx_le: "idx \<le> ?M"
    using length_greedy [of "?M - ?idx" ?rem "inorder tree"] count slots_max [OF shape]
    by (simp add: idx xs_def)
  then have idx_word: "unat (of_nat idx :: u16) = idx" using M by (simp add: unat_of_nat)
  have fits: "?idx + length xs \<le> length (slots fe)"
  proof (cases "\<exists>es. indirect_extents fe = Live es")
    case True
    then show ?thesis using slots_live [OF shape] idx_le idx by auto
  next
    case False
    with quiet have "idx \<le> DIRECT_EXTENTS" by (simp add: no_indirect_alloc_def fe' idx_word)
    then show ?thesis using shape idx by (simp add: entry_shape_def slots_def)
  qed
  have "\<forall>x \<in> set (inorder tree). in_storage psb x" using free_pool_elem(3) [OF pool] by blast
  from allocate_loop_spec [OF geo shape this, of ?idx ?M ?rem K st] fits loop obtain bm where
    bm: "psb' = psb\<lparr>block_bitmap := bm\<rparr>" "length bm = length (block_bitmap psb)"
      "bits_of bm = bits_of (block_bitmap psb) \<union> (\<Union>x \<in> set xs. fx_blocks x)"
    and fe1: "entry_shape psb fe1" "same_but_extents fe fe1" "length (slots fe1) = length (slots fe)"
      "take idx (slots fe1) = take ?idx (slots fe) @ map to_extent xs"
    by (auto simp: xs_def idx)
  have count': "unat (extent_count (file_u fe')) = idx" by (simp add: fe' idx_word)
  have slots': "slots fe' = slots fe1" by (simp add: fe')
  have ext': "file_extents fe' = file_extents fe @ map to_extent xs"
    using fe1(4) by (simp add: file_extents_def slots' fe' idx_word)
  have used': "used_blocks psb' = used_blocks psb \<union> pool_blocks xs"
    by (simp add: used_blocks_def bm pool_blocks_def)
  have pool_xs: "free_pool psb xs" unfolding xs_def by (rule free_pool_greedy [OF pool])
  have "extents_ok psb' (file_extents fe')"
    unfolding ext' by (rule extents_ok_append [OF old pool_xs _ _ used']) (simp_all add: bm)
  moreover have "entry_shape psb' fe'" using fe1(1) by (simp add: bm fe' entry_shape_def cong: ptr.case_cong)
  ultimately have "wf_file psb' fe'"
    using fits fe1(3) count' by (simp add: wf_file_def slots' idx)
  moreover have "same_but_extents fe fe'" using fe1(2) by (simp add: fe' same_but_extents_def)
  ultimately show ?thesis
    using pool_xs bm used' ext' r tree
    by (intro exI [of _ xs] exI [of _ bm] exI [of _ b] exI [of _ tree]) (simp add: rem xs_def)
qed

section \<open>No memory fault\<close>

lemma length_raw_extents [simp]: "length (raw_extents little n bs) = n"
  by (simp add: raw_extents_def Let_def)

lemma bitmap_same: "psb\<lparr>block_bitmap := block_bitmap psb\<rparr> = psb"
  by simp

text \<open>With memory available, loading or allocating the indirect extents does not fault.\<close>

lemma alloc_indirect_safe:
  assumes "geometry psb" and "memory_ok K" and "entry_shape psb fe"
  shows "\<exists>r bm fe'. portfs_alloc_indirect_extents K retry st psb fe = Some (r, psb\<lparr>block_bitmap := bm\<rparr>, fe') \<and>
    length bm = length (block_bitmap psb) \<and> entry_shape psb fe' \<and> (\<exists>es. indirect_extents fe' = Live es) \<and>
    extent_count (file_u fe') = extent_count (file_u fe)"
proof (cases "indirect_extents fe")
  case Null
  have km: "kmalloc_ok K site" for site using assms(2) by (simp add: memory_ok_def)
  show ?thesis
  proof (cases "extents_block (file_u fe) = 0")
    case zero: True
    obtain b where b: "find_free_block psb = Some b"
      using find_free_block_cases [OF assms(1)] by blast
    show ?thesis
    proof (cases "b = -1")
      case True
      with Null km zero b assms(3) show ?thesis
        by (intro exI [of _ "Inl ENOSPC"] exI [of _ "block_bitmap psb"])
          (simp add: portfs_alloc_indirect_extents_def entry_shape_def Let_def)
    next
      case False
      have "unat b \<in> free_blocks psb" by (rule find_free_block_free [OF assms(1) b False])
      then have "unat b < 8 * length (block_bitmap psb)"
        using assms(1) by (simp add: free_blocks_def geometry_def)
      from set_block_allocated_bits [OF this] Null km zero b False assms(3) show ?thesis
        by (fastforce simp: portfs_alloc_indirect_extents_def entry_shape_def Let_def)
    qed
  next
    case False
    have "\<exists>r fe'. portfs_alloc_indirect_extents K retry st psb fe = Some (r, psb, fe') \<and>
        entry_shape psb fe' \<and> (\<exists>es. indirect_extents fe' = Live es) \<and>
        extent_count (file_u fe') = extent_count (file_u fe)"
      using Null km False assms(3)
      by (auto simp: portfs_alloc_indirect_extents_def entry_shape_def Let_def split: sum.split)
    then show ?thesis
      by (metis bitmap_same)
  qed
next
  case Dangling
  with assms(3) show ?thesis by (simp add: entry_shape_def)
next
  case (Live es)
  with assms(3) show ?thesis
    by (intro exI [of _ "Inr ()"] exI [of _ "block_bitmap psb"])
      (simp add: portfs_alloc_indirect_extents_def entry_shape_def)
qed

lemma store_extent_safe:
  assumes "geometry psb" and "memory_ok K" and "entry_shape psb fe" and "idx < portfs_max_extents psb"
  shows "\<exists>bm fe'. store_extent K st idx x psb fe = Some (psb\<lparr>block_bitmap := bm\<rparr>, fe') \<and>
    length bm = length (block_bitmap psb) \<and> entry_shape psb fe'"
proof (cases "idx < length (slots fe)")
  case True
  from store_extent_slot [OF assms(3) True, of K st x] show ?thesis
    by (metis bitmap_same)
next
  case False
  with assms(3) have idx: "DIRECT_EXTENTS \<le> idx" by (simp add: entry_shape_def slots_def)
  have null: "indirect_extents fe = Null"
  proof (rule ccontr)
    assume "indirect_extents fe \<noteq> Null"
    with assms(3) obtain es where "indirect_extents fe = Live es"
      by (cases "indirect_extents fe") (auto simp: entry_shape_def)
    with slots_live [OF assms(3)] False assms(4) show False by simp
  qed
  obtain r bm fe1 es where a: "portfs_alloc_indirect_extents K True st psb fe = Some (r, psb\<lparr>block_bitmap := bm\<rparr>, fe1)"
      "length bm = length (block_bitmap psb)" "entry_shape psb fe1" "indirect_extents fe1 = Live es"
    using alloc_indirect_safe [OF assms(1-3)] by blast
  then have "idx - DIRECT_EXTENTS < length es"
    using assms(4) idx by (simp add: entry_shape_def portfs_max_extents_def)
  with a null idx show ?thesis
    by (intro exI [of _ bm]) (simp add: store_extent_def array_simps entry_shape_def)
qed

lemma allocate_loop_safe:
  assumes "geometry psb" and "memory_ok K" and "entry_shape psb fe"
    and "\<forall>x \<in> set xs. in_storage psb x"
  shows "\<exists>z. allocate_loop K st (portfs_max_extents psb) xs idx r psb fe = Some z"
  using assms
proof (induction xs arbitrary: idx r psb fe)
  case Nil
  then show ?case by simp
next
  case (Cons x xs)
  show ?case
  proof (cases "portfs_max_extents psb \<le> idx")
    case True
    then show ?thesis by simp
  next
    case False
    have x: "in_storage psb x" using Cons.prems(4) by simp
    obtain bm1 where bm1: "set_blocks_allocated (block_bitmap psb) (free_start x) (free_length x) = Some bm1"
        "length bm1 = length (block_bitmap psb)"
      using set_extent_bits [OF Cons.prems(1) x] by blast
    let ?psb1 = "psb\<lparr>block_bitmap := bm1\<rparr>"
    have geo1: "geometry ?psb1" using Cons.prems(1) bm1(2) by (simp add: geometry_bitmap)
    have shape1: "entry_shape ?psb1 fe" using Cons.prems(3) by simp
    have idx1: "idx < portfs_max_extents ?psb1" using False by (simp add: portfs_max_extents_def)
    obtain bm2 fe2 where s: "store_extent K st idx x ?psb1 fe = Some (psb\<lparr>block_bitmap := bm2\<rparr>, fe2)"
        "length bm2 = length bm1" "entry_shape psb fe2"
      using store_extent_safe [OF geo1 Cons.prems(2) shape1 idx1, of st x] by auto
    let ?psb2 = "psb\<lparr>block_bitmap := bm2\<rparr>"
    have "geometry ?psb2" using Cons.prems(1) bm1(2) s(2) by (simp add: geometry_bitmap)
    moreover have "\<forall>y \<in> set xs. in_storage ?psb2 y" using Cons.prems(4) by (simp add: in_storage_def)
    moreover have "entry_shape ?psb2 fe2" using s(3) by simp
    ultimately have "\<exists>z. allocate_loop K st (portfs_max_extents ?psb2) xs (Suc idx)
        (r - uint (free_length x)) ?psb2 fe2 = Some z"
      using Cons.IH Cons.prems(2) by blast
    moreover have "portfs_max_extents ?psb2 = portfs_max_extents psb" by (simp add: portfs_max_extents_def)
    ultimately show ?thesis using False bm1(1) s(1) by (simp add: Let_def)
  qed
qed

lemma allocate_memory_safe:
  assumes "wf_super psb" and "entry_shape psb fe" and "kernel_ok K" and "memory_ok K"
  shows "\<exists>z. portfs_allocate_memory K st psb fe bytes = Some z"
proof (cases "bytes = 0")
  case True
  then show ?thesis by (simp add: portfs_allocate_memory_def)
next
  case False
  have geo: "geometry psb" and bs: "block_size psb \<noteq> 0"
    using assms(1) by (auto simp: wf_super_def)
  obtain b tree where tree: "portfs_build_extent_tree (rb_rotations K)
      (\<lambda>i. kmalloc_ok K (Site_free_extent i)) psb Leaf = Some (b, tree)" and pool: "free_pool psb (inorder tree)"
    using portfs_build_extent_tree_spec [OF geo] by blast
  have destroy: "portfs_destroy_extent_tree (rb_erase K) tree = Some (Leaf, inorder tree)"
    by (rule portfs_destroy_extent_tree_all [OF kernel_ok_erase [OF assms(3)]])
  have stor: "\<forall>x \<in> set (inorder tree). in_storage psb x" using free_pool_elem(3) [OF pool] by blast
  let ?idx = "unat (extent_count (file_u fe))"
  obtain bm fe1 where first: "(if DIRECT_EXTENTS \<le> ?idx
      then map_option snd (portfs_alloc_indirect_extents K False st psb fe) else Some (psb, fe)) =
      Some (psb\<lparr>block_bitmap := bm\<rparr>, fe1)" "length bm = length (block_bitmap psb)" "entry_shape psb fe1"
  proof (cases "DIRECT_EXTENTS \<le> ?idx")
    case True
    then show ?thesis
      using alloc_indirect_safe [OF geo assms(4,2), of False st] that by auto
  next
    case False
    then show ?thesis using that [of "block_bitmap psb" fe] assms(2) by simp
  qed
  let ?psb1 = "psb\<lparr>block_bitmap := bm\<rparr>"
  have "geometry ?psb1" using geo first(2) by (simp add: geometry_bitmap)
  moreover have "\<forall>x \<in> set (inorder tree). in_storage ?psb1 x" using stor by (simp add: in_storage_def)
  moreover have "entry_shape ?psb1 fe1" using first(3) by simp
  ultimately obtain z where "allocate_loop K st (portfs_max_extents ?psb1) (inorder tree) ?idx
      (sint (blocks_wanted psb bytes)) ?psb1 fe1 = Some z"
    using allocate_loop_safe assms(4) by blast
  with False bs tree destroy first(1) show ?thesis
    by (cases z) (simp add: portfs_allocate_memory_def Let_def)
qed

section \<open>Counting blocks\<close>

lemma card_ext_blocks [simp]: "card (ext_blocks e) = unat (ext_length e)"
  by (simp add: ext_blocks_def)

lemma finite_ext_blocks [simp]: "finite (ext_blocks e)"
  by (simp add: ext_blocks_def)

lemma card_extents:
  "sorted_wrt (\<lambda>e f. ext_blocks e \<inter> ext_blocks f = {}) es \<Longrightarrow>
   card (\<Union>e \<in> set es. ext_blocks e) = (\<Sum>e \<leftarrow> es. unat (ext_length e))"
proof (induction es)
  case (Cons e es)
  then have "ext_blocks e \<inter> (\<Union>e \<in> set es. ext_blocks e) = {}" by auto
  with Cons show ?case by (simp add: card_Un_disjoint)
qed simp

lemma card_file_blocks:
  "wf_file psb fe \<Longrightarrow> card (file_blocks fe) = (\<Sum>e \<leftarrow> file_extents fe. unat (ext_length e))"
  by (simp add: wf_file_def extents_ok_def file_blocks_def card_extents)

lemma card_pool_blocks: "free_pool psb xs \<Longrightarrow> int (card (pool_blocks xs)) = pool_size xs"
proof -
  assume pool: "free_pool psb xs"
  have "card (\<Union>e \<in> set (map to_extent xs). ext_blocks e) = (\<Sum>e \<leftarrow> map to_extent xs. unat (ext_length e))"
    by (rule card_extents) (use free_pool_disjoint [OF pool] in \<open>simp add: sorted_wrt_map\<close>)
  moreover have "int (\<Sum>e \<leftarrow> map to_extent xs. unat (ext_length e)) = pool_size xs"
    by (induction xs) (simp_all add: to_extent_def)
  ultimately show ?thesis by (simp add: pool_blocks_def)
qed

lemma file_blocks_used: "wf_file psb fe \<Longrightarrow> file_blocks fe \<subseteq> used_blocks psb"
  by (auto simp: wf_file_def extents_ok_def file_blocks_def)

lemma file_blocks_bound: "wf_file psb fe \<Longrightarrow> file_blocks fe \<subseteq> {unat (data_start psb)..<unat (total_blocks psb)}"
  by (fastforce simp: wf_file_def extents_ok_def file_blocks_def ext_blocks_def)

lemma pool_blocks_free: "free_pool psb xs \<Longrightarrow> pool_blocks xs \<subseteq> free_blocks psb"
  by (auto simp: free_pool_def pool_blocks_def)

lemma used_not_free: "used_blocks psb \<inter> free_blocks psb = {}"
  by (auto simp: used_blocks_def free_blocks_def)

lemma wf_file_mono:
  assumes "wf_file psb fe" and "used_blocks psb \<subseteq> used_blocks (psb\<lparr>block_bitmap := bm\<rparr>)"
  shows "wf_file (psb\<lparr>block_bitmap := bm\<rparr>) fe"
  using assms by (fastforce simp: wf_file_def extents_ok_def)

text \<open>The number of blocks looked for, when the request is far from the limits of 64 bits.\<close>

lemma blocks_wanted_small:
  assumes "0 < bytes" and "0 < block_size psb" and "unat bytes + unat (block_size psb) < 2 ^ 50"
  shows "sint (blocks_wanted psb bytes) =
      int ((unat bytes + unat (block_size psb) - 1) div unat (block_size psb) * 1500 div 1000)"
    and "unat bytes \<le> unat (block_size psb) * ((unat bytes + unat (block_size psb) - 1) div unat (block_size psb) * 1500 div 1000)"
    and "0 < (unat bytes + unat (block_size psb) - 1) div unat (block_size psb) * 1500 div 1000"
proof -
  define b where "b = unat (block_size psb)"
  define c where "c = (unat bytes + b - 1) div b"
  have b: "0 < b" and n: "0 < unat bytes"
    using assms(1,2) by (simp_all add: b_def word_less_nat_alt)
  have ub: "unat (ucast (block_size psb) :: u64) = b" by (simp add: b_def)
  have "unat (bytes + ucast (block_size psb)) = unat bytes + b"
    using assms(3) ub by (simp add: unat_simps b_def)
  then have "unat (bytes + ucast (block_size psb) - 1) = unat bytes + b - 1"
    using n by (subst unat_sub_no_wrap) (simp_all add: word_le_nat_alt)
  then have c: "unat ((bytes + ucast (block_size psb) - 1) div ucast (block_size psb)) = c"
    by (simp add: unat_div c_def b_def)
  have "c \<le> unat bytes + b - 1" by (simp add: c_def)
  then have c_lt: "c < 2 ^ 50" using assms(3) n by (simp add: b_def)
  then have "unat ((bytes + ucast (block_size psb) - 1) div ucast (block_size psb) * 1500) = c * 1500"
    using c by (subst unat_mult_no_wrap) simp_all
  then have w: "unat (blocks_wanted psb bytes) = c * 1500 div 1000"
    by (simp add: blocks_wanted_def unat_div)
  have "c * 1500 div 1000 < 2 ^ 63" using c_lt by simp
  with w show "sint (blocks_wanted psb bytes) = int ((unat bytes + unat (block_size psb) - 1) div unat (block_size psb) * 1500 div 1000)"
    by (simp only: sint_small c_def b_def)
  have "unat bytes \<le> b * c"
  proof -
    have "unat bytes + b - 1 < b * c + b"
      unfolding c_def using dividend_less_times_div [OF b, of "unat bytes + b - 1"] by (simp only: add.commute)
    then show ?thesis by linarith
  qed
  moreover have "c \<le> c * 1500 div 1000" by simp
  ultimately show "unat bytes \<le> unat (block_size psb) * ((unat bytes + unat (block_size psb) - 1) div unat (block_size psb) * 1500 div 1000)"
    unfolding b_def [symmetric] c_def [symmetric] by (meson le_trans mult_le_mono2)
  have "0 < c" using \<open>unat bytes \<le> b * c\<close> n by (cases c) simp_all
  then show "0 < (unat bytes + unat (block_size psb) - 1) div unat (block_size psb) * 1500 div 1000"
    unfolding b_def [symmetric] c_def [symmetric] by simp
qed

section \<open>The greedy choice\<close>

lemma pool_size_nonneg: "0 \<le> pool_size xs"
  by (induction xs) (simp_all add: add_nonneg_nonneg)

lemma pool_size_remove1: "x \<in> set ys \<Longrightarrow> pool_size ys = uint (free_length x) + pool_size (remove1 x ys)"
  by (induction ys) auto

text \<open>The first \<open>k\<close> extents of the pool are the \<open>k\<close> largest.\<close>

lemma longest_first:
  assumes "sorted xs" and "distinct ys" and "set ys \<subseteq> set xs"
  shows "pool_size ys \<le> pool_size (take (length ys) xs)"
  using assms
proof (induction xs arbitrary: ys)
  case Nil
  then show ?case by simp
next
  case (Cons x xs)
  show ?case
  proof (cases "x \<in> set ys")
    case True
    then obtain m where m: "length ys = Suc m" "length (remove1 x ys) = m"
      by (metis One_nat_def Suc_pred length_pos_if_in_set length_remove1)
    have "pool_size (remove1 x ys) \<le> pool_size (take m xs)"
      using Cons.IH [of "remove1 x ys"] Cons.prems m(2) by (auto simp: set_remove1_eq)
    then show ?thesis using pool_size_remove1 [OF True] m(1) by simp
  next
    case False
    show ?thesis
    proof (cases ys)
      case (Cons y ys')
      have "y \<in> set xs" "set ys' \<subseteq> set xs" "distinct ys'"
        using Cons False Cons.prems by auto
      then have "x \<le> y" "pool_size ys' \<le> pool_size (take (length ys') xs)"
        using Cons.prems(1) Cons.IH by simp_all
      moreover from \<open>x \<le> y\<close> have "uint (free_length y) \<le> uint (free_length x)"
        by (auto simp: less_eq_free_extent_def word_less_def)
      ultimately show ?thesis by (simp add: Cons)
    qed simp
  qed
qed

lemma greedy_short: "k < length (greedy n r xs) \<Longrightarrow> 0 < r \<Longrightarrow> pool_size (take k xs) < r"
proof (induction n r xs arbitrary: k rule: greedy.induct)
  case (3 n r x xs)
  show ?case
  proof (cases k)
    case (Suc j)
    with "3.prems" have rest: "\<not> r - uint (free_length x) \<le> 0"
      "j < length (greedy n (r - uint (free_length x)) xs)" by (auto split: if_splits)
    with "3.IH" [OF rest(1), of j] Suc show ?thesis by simp
  qed (use "3.prems" in simp)
qed simp_all

lemma greedy_fewest:
  assumes "sorted xs" and "distinct ys" and "set ys \<subseteq> set xs" and "r \<le> pool_size ys" and "0 < r"
  shows "length (greedy n r xs) \<le> length ys"
proof (rule ccontr)
  assume "\<not> length (greedy n r xs) \<le> length ys"
  then have "pool_size (take (length ys) xs) < r"
    using greedy_short [of "length ys" n r xs] assms(5) by simp
  with longest_first [OF assms(1-3)] assms(4) show False by linarith
qed

lemma greedy_overshoot:
  assumes "\<forall>x \<in> set xs. free_length x \<le> MAX_EXTENT_LENGTH" and "0 < r"
  shows "pool_size (greedy n r xs) < r + 1024"
  using assms
proof (induction n r xs rule: greedy.induct)
  case (3 n r x xs)
  have "uint (free_length x) \<le> 1024" using "3.prems"(1) by (simp add: word_le_def)
  with 3 show ?case by auto
qed simp_all

lemma greedy_exhausts: "pool_size (greedy n r xs) < r \<Longrightarrow> length (greedy n r xs) = n \<or> greedy n r xs = xs"
  by (induction n r xs rule: greedy.induct) (auto split: if_splits)

lemma new_blocks:
  assumes "wf_file psb fe" and "free_pool psb xs" and "file_extents fe' = file_extents fe @ map to_extent xs"
  shows "file_blocks fe' = file_blocks fe \<union> pool_blocks xs"
    and "file_blocks fe' - file_blocks fe = pool_blocks xs"
proof -
  show "file_blocks fe' = file_blocks fe \<union> pool_blocks xs"
    using assms(3) by (simp add: file_blocks_def pool_blocks_def)
  then show "file_blocks fe' - file_blocks fe = pool_blocks xs"
    using file_blocks_used [OF assms(1)] pool_blocks_free [OF assms(2)] used_not_free by blast
qed

text \<open>What a successful allocation gives to the operations that rely on it.\<close>

lemma allocate_memory_success:
  assumes "wf_super psb" and "wf_file psb fe" and "kernel_ok K" and "0 < bytes"
    and "portfs_allocate_memory K st psb fe bytes = Some (Inr (), psb', fe')"
    and "no_indirect_alloc fe fe'" and "unat bytes + unat (block_size psb) < 2 ^ 50"
  shows "\<exists>xs bm. free_pool psb xs \<and> psb' = psb\<lparr>block_bitmap := bm\<rparr> \<and>
    length bm = length (block_bitmap psb) \<and> used_blocks psb' = used_blocks psb \<union> pool_blocks xs \<and>
    file_extents fe' = file_extents fe @ map to_extent xs \<and> same_but_extents fe fe' \<and> wf_file psb' fe' \<and>
    unat bytes \<le> unat (block_size psb) * card (pool_blocks xs)"
proof -
  have bs: "0 < block_size psb" using assms(1) by (simp add: wf_super_def)
  obtain xs bm where spec: "free_pool psb xs" "psb' = psb\<lparr>block_bitmap := bm\<rparr>"
    "length bm = length (block_bitmap psb)" "used_blocks psb' = used_blocks psb \<union> pool_blocks xs"
    "file_extents fe' = file_extents fe @ map to_extent xs" "same_but_extents fe fe'" "wf_file psb' fe'"
    "Inr () = (if sint (blocks_wanted psb bytes) \<le> pool_size xs then Inr () else Inl ENOSPC)"
    using allocate_memory_spec [OF assms(1-6)] by blast
  let ?w = "(unat bytes + unat (block_size psb) - 1) div unat (block_size psb) * 1500 div 1000"
  have "int ?w \<le> pool_size xs"
    using spec(8) unfolding blocks_wanted_small(1) [OF assms(4) bs assms(7)] by (auto split: if_splits)
  then have "?w \<le> card (pool_blocks xs)"
    unfolding card_pool_blocks [OF spec(1), symmetric] by (simp only: of_nat_le_iff)
  then have "unat bytes \<le> unat (block_size psb) * card (pool_blocks xs)"
    using blocks_wanted_small(2) [OF assms(4) bs assms(7)] by (meson le_trans mult_le_mono2)
  with spec(1-7) show ?thesis by blast
qed

text \<open>The allocated size, without wrap-around.\<close>

lemma allocated_size_blocks:
  assumes "wf_file psb fe"
  shows "\<exists>n. portfs_get_allocated_size fe (ucast (block_size psb)) = Some n \<and>
    unat n = unat (block_size psb) * card (file_blocks fe)"
proof -
  let ?es = "file_extents fe" and ?len = "\<lambda>e. unat (ext_length e)"
  have "card (file_blocks fe) \<le> card {unat (data_start psb)..<unat (total_blocks psb)}"
    by (rule card_mono) (use file_blocks_bound [OF assms] in auto)
  then have small: "card (file_blocks fe) < 2 ^ 32"
    by (simp add: le_less_trans [OF _ less_imp_diff_less [OF unat_u32_lt]])
  have len: "length ?es = unat (extent_count (file_u fe))" by (rule length_file_extents [OF assms])
  have loop: "\<exists>n. sum_lengths fe i acc = Some n \<and> unat n = unat acc + (\<Sum>e \<leftarrow> drop i ?es. ?len e)"
    if "unat acc + (\<Sum>e \<leftarrow> drop i ?es. ?len e) < 2 ^ 32" for i and acc :: u64
    using that
  proof (induction "length ?es - i" arbitrary: i acc)
    case 0
    then show ?case by (subst sum_lengths.simps) (simp add: len)
  next
    case (Suc k)
    then have i: "i < length ?es" by simp
    let ?acc = "acc + ucast (ext_length (?es ! i))"
    have split: "drop i ?es = ?es ! i # drop (Suc i) ?es" using i by (simp add: Cons_nth_drop_Suc)
    then have acc: "unat ?acc = unat acc + ?len (?es ! i)"
      using Suc.prems by (subst unat_add_no_wrap) simp_all
    have "\<exists>n. sum_lengths fe (Suc i) ?acc = Some n \<and> unat n = unat ?acc + (\<Sum>e \<leftarrow> drop (Suc i) ?es. ?len e)"
      using Suc.prems Suc.hyps(2) split acc by (intro Suc.hyps(1)) simp_all
    then show ?case
      using i get_extent_file [OF assms, of i] split acc
      by (subst sum_lengths.simps) (simp add: len add.assoc)
  qed
  obtain n where n: "sum_lengths fe 0 0 = Some n" "unat n = card (file_blocks fe)"
    using loop [of 0 0] small card_file_blocks [OF assms] by auto
  have "unat n * unat (block_size psb) < 2 ^ 32 * 2 ^ 32"
    by (rule mult_strict_mono) (use small n(2) in simp_all)
  then have "unat (n * ucast (block_size psb)) = unat n * unat (block_size psb)"
    by (subst unat_mult_no_wrap) simp_all
  with n show ?thesis by (simp add: portfs_get_allocated_size_def)
qed

section \<open>A concrete allocation\<close>

lemma wf_sample_super:
  assumes "bm \<noteq> []" and "length bm < 2 ^ 29"
  shows "wf_super (sample_super bm)"
proof -
  have n: "unat (of_nat (8 * length bm) :: u32) = 8 * length bm"
    using assms(2) by (subst unat_of_nat) simp
  have "geometry (sample_super bm)"
    unfolding geometry_def sample_super_def word_le_nat_alt portfs_superblock.simps n
    using assms(1) by (cases bm) simp_all
  then show ?thesis by (simp add: wf_super_def portfs_max_extents_def) (simp add: sample_super_def)
qed

lemma wf_sample_empty: "wf_file (sample_super bm) (sample_file sz [])"
  by (simp add: wf_file_def sample_file_def zero_entry_def entry_shape_def file_extents_def
      extents_ok_def)

lemma sample_alloc:
  "portfs_allocate_memory host_env [] (sample_super [0x03, 0xFE]) (sample_file 0 []) 100 =
   Some (Inr (), sample_super [0xFF, 0xFF], sample_file 0 [(2, 7)])"
  by code_simp

lemma sample_alloc_enospc:
  "portfs_allocate_memory host_env [] (sample_super [0x03, 0xFE]) (sample_file 0 []) 1360 =
   Some (Inl ENOSPC, sample_super [0xFF, 0xFF], sample_file 0 [(2, 7)])"
  by code_simp

lemma sample_tree:
  "portfs_build_extent_tree (rb_rotations host_env) (\<lambda>i. kmalloc_ok host_env (Site_free_extent i))
     (sample_super [0x03, 0xFE]) Leaf = Some (Inr (), Node Leaf (Free_Extent 2 7) Leaf)"
  by code_simp

lemma sample_direct: "no_indirect_alloc (sample_file 0 []) (sample_file 0 [(2, 7)])"
  by (simp add: no_indirect_alloc_def sample_file_def)

lemma sample_wf: "wf_file (sample_super [0xFF, 0xFF]) (sample_file 0 [(2, 7)])"
proof -
  have "wf_super (sample_super [0x03, 0xFE])" by (rule wf_sample_super) simp_all
  from allocate_memory_spec [OF this wf_sample_empty host_env_ok _ sample_alloc sample_direct]
  show ?thesis by auto
qed

lemmas sample_facts = wf_sample_super [of "[0x03, 0xFE]"] wf_sample_empty host_env_ok
  host_env_memory_ok sample_alloc sample_alloc_enospc sample_direct

section \<open>Properties\<close>

text \<open>
  C18: What the allocator does to the file system when it puts no block under the indirect extents:
  it appends new extents behind the old ones, made of blocks that were free, marks exactly these
  blocks, keeps the file well formed whether or not the space suffices, and touches no other file:
  every well formed file that shared no block with this one still is well formed and shares none.
\<close>

theorem allocate_memory_extends_file:
  assumes "wf_super psb" and "wf_file psb fe" and "kernel_ok K" and "0 < bytes"
    and "portfs_allocate_memory K st psb fe bytes = Some (r, psb', fe')"
    and "no_indirect_alloc fe fe'"
  shows "wf_file psb' fe' \<and> same_but_extents fe fe' \<and>
    (\<exists>new. file_extents fe' = file_extents fe @ new) \<and>
    file_blocks fe' - file_blocks fe \<subseteq> free_blocks psb \<and>
    used_blocks psb' = used_blocks psb \<union> file_blocks fe' \<and>
    (\<forall>other. wf_file psb other \<and> file_blocks other \<inter> file_blocks fe = {} \<longrightarrow>
       wf_file psb' other \<and> file_blocks other \<inter> file_blocks fe' = {})"
proof -
  obtain xs bm where pool: "free_pool psb xs" and psb': "psb' = psb\<lparr>block_bitmap := bm\<rparr>"
    and used: "used_blocks psb' = used_blocks psb \<union> pool_blocks xs"
    and ext: "file_extents fe' = file_extents fe @ map to_extent xs"
    and rest: "same_but_extents fe fe'" "wf_file psb' fe'"
    using allocate_memory_spec [OF assms] by blast
  note blocks = new_blocks [OF assms(2) pool ext]
  have "wf_file psb' other \<and> file_blocks other \<inter> file_blocks fe' = {}"
    if other: "wf_file psb other" "file_blocks other \<inter> file_blocks fe = {}" for other
    using wf_file_mono [OF other(1), of bm] used other(2) file_blocks_used [OF other(1)]
      pool_blocks_free [OF pool] used_not_free [of psb]
    unfolding psb' blocks(1) by blast
  moreover have "used_blocks psb \<union> pool_blocks xs = used_blocks psb \<union> file_blocks fe'"
    using blocks(1) file_blocks_used [OF assms(2)] by blast
  ultimately show ?thesis
    using rest ext used blocks(2) pool_blocks_free [OF pool] by auto
qed

theorem allocate_memory_extends_file_witness:
  "wf_file (sample_super [0xFF, 0xFF]) (sample_file 0 [(2, 7)]) \<and>
   used_blocks (sample_super [0xFF, 0xFF]) =
     used_blocks (sample_super [0x03, 0xFE]) \<union> file_blocks (sample_file 0 [(2, 7)])"
  using allocate_memory_extends_file
    [of "sample_super [0x03, 0xFE]" "sample_file 0 []" host_env 100 "[]" "Inr ()"
        "sample_super [0xFF, 0xFF]" "sample_file 0 [(2, 7)]"]
  by (simp add: sample_facts)

text \<open>
  C19: How much the allocator gives.  With \<open>wanted\<close> the request in blocks, rounded up and increased
  by half: it gives fewer than \<open>wanted + 1024\<close> blocks, it reports success exactly when it gives at
  least \<open>wanted\<close>, and then the new blocks hold the requested bytes.
\<close>

theorem allocate_memory_amount:
  assumes "wf_super psb" and "wf_file psb fe" and "kernel_ok K" and "0 < bytes"
    and "portfs_allocate_memory K st psb fe bytes = Some (r, psb', fe')"
    and "no_indirect_alloc fe fe'" and "unat bytes + unat (block_size psb) < 2 ^ 50"
  shows "let wanted = (unat bytes + unat (block_size psb) - 1) div unat (block_size psb) * 1500 div 1000;
             given = card (file_blocks fe' - file_blocks fe)
         in given < wanted + 1024 \<and> r = (if wanted \<le> given then Inr () else Inl ENOSPC) \<and>
            (r = Inr () \<longrightarrow> unat bytes \<le> unat (block_size psb) * given)"
proof -
  have bs: "0 < block_size psb" using assms(1) by (simp add: wf_super_def)
  define wanted where "wanted = (unat bytes + unat (block_size psb) - 1) div unat (block_size psb) * 1500 div 1000"
  note small = blocks_wanted_small [OF assms(4) bs assms(7), folded wanted_def]
  obtain xs b tree where pool: "free_pool psb xs"
    and tree: "portfs_build_extent_tree (rb_rotations K) (\<lambda>i. kmalloc_ok K (Site_free_extent i)) psb Leaf = Some (b, tree)"
    and xs: "xs = greedy (portfs_max_extents psb - unat (extent_count (file_u fe))) (int wanted) (inorder tree)"
    and ext: "file_extents fe' = file_extents fe @ map to_extent xs"
    and r: "r = (if int wanted \<le> pool_size xs then Inr () else Inl ENOSPC)"
    using allocate_memory_spec [OF assms(1-6)] unfolding small(1) by blast
  define given where "given = card (file_blocks fe' - file_blocks fe)"
  have given: "int given = pool_size xs"
    using card_pool_blocks [OF pool] new_blocks(2) [OF assms(2) pool ext] by (simp add: given_def)
  have geo: "geometry psb" using assms(1) by (simp add: wf_super_def)
  have "\<forall>x \<in> set (inorder tree). free_length x \<le> MAX_EXTENT_LENGTH"
    using portfs_build_extent_tree_spec [OF geo, of "rb_rotations K" "\<lambda>i. kmalloc_ok K (Site_free_extent i)"] tree
    by (auto simp: free_pool_def)
  from greedy_overshoot [OF this] small(3) have "given < wanted + 1024"
    using given xs by (metis of_nat_0_less_iff of_nat_add of_nat_less_iff of_nat_numeral)
  moreover have "r = (if wanted \<le> given then Inr () else Inl ENOSPC)"
    using r by (simp flip: given)
  moreover have "unat bytes \<le> unat (block_size psb) * given" if "wanted \<le> given"
    using small(2) that by (meson le_trans mult_le_mono2)
  ultimately show ?thesis
    unfolding Let_def wanted_def [symmetric] given_def [symmetric] by simp
qed

theorem allocate_memory_amount_witness:
  "unat (100 :: u64) \<le> unat (block_size (sample_super [0x03, 0xFE])) *
     card (file_blocks (sample_file 0 [(2, 7)]) - file_blocks (sample_file 0 []))"
  using allocate_memory_amount
    [of "sample_super [0x03, 0xFE]" "sample_file 0 []" host_env 100 "[]" "Inr ()"
        "sample_super [0xFF, 0xFF]" "sample_file 0 [(2, 7)]"]
  by (simp add: sample_facts Let_def) (simp add: sample_super_def)

text \<open>
  C20: The allocator's greedy choice is optimal: no selection of free extents from the tree that
  covers the wanted number of blocks has fewer extents than the file receives.
\<close>

theorem allocate_memory_fewest_extents:
  assumes "wf_super psb" and "wf_file psb fe" and "kernel_ok K" and "0 < bytes"
    and "portfs_allocate_memory K st psb fe bytes = Some (r, psb', fe')"
    and "no_indirect_alloc fe fe'" and "unat bytes + unat (block_size psb) < 2 ^ 50"
    and "portfs_build_extent_tree (rb_rotations K) (\<lambda>i. kmalloc_ok K (Site_free_extent i)) psb Leaf = Some (b, tree)"
    and "distinct ys" and "set ys \<subseteq> set_tree tree"
    and "sint (blocks_wanted psb bytes) \<le> (\<Sum>y \<leftarrow> ys. uint (free_length y))"
  shows "length (file_extents fe') - length (file_extents fe) \<le> length ys"
proof -
  have bs: "0 < block_size psb" and geo: "geometry psb" using assms(1) by (simp_all add: wf_super_def)
  have "0 < sint (blocks_wanted psb bytes)"
    using blocks_wanted_small(3) [OF assms(4) bs assms(7)]
    unfolding blocks_wanted_small(1) [OF assms(4) bs assms(7)] by (simp only: of_nat_0_less_iff)
  moreover have "sorted (inorder tree)"
    using portfs_build_extent_tree_spec [OF geo, of "rb_rotations K" "\<lambda>i. kmalloc_ok K (Site_free_extent i)"] assms(8)
    by (auto simp: free_pool_def)
  ultimately have "length (greedy n (sint (blocks_wanted psb bytes)) (inorder tree)) \<le> length ys" for n
    using assms(9-11) by (intro greedy_fewest) (simp_all add: pool_size_def)
  then show ?thesis
    using allocate_memory_spec [OF assms(1-6)] assms(8) by auto
qed

theorem allocate_memory_fewest_extents_witness:
  "length (file_extents (sample_file 0 [(2, 7)])) - length (file_extents (sample_file 0 [])) \<le>
   length [Free_Extent 2 7]"
proof (rule allocate_memory_fewest_extents [OF _ _ _ _ sample_alloc _ _ sample_tree])
  show "sint (blocks_wanted (sample_super [0x03, 0xFE]) 100) \<le> (\<Sum>y \<leftarrow> [Free_Extent 2 7]. uint (free_length y))"
    by code_simp
qed (simp_all add: sample_facts sample_tree, simp add: sample_super_def)

text \<open>
  An allocation that reports \<open>ENOSPC\<close> has still consumed what there was: with memory for the
  tree, the file has all the extents an entry can have, or the only free blocks left are those the
  scan passes over behind extents of 1024 blocks.  (The blocks stay with the file.)
\<close>

theorem allocate_memory_enospc:
  assumes "wf_super psb" and "wf_file psb fe" and "kernel_ok K" and "memory_ok K" and "0 < bytes"
    and "portfs_allocate_memory K st psb fe bytes = Some (Inl ENOSPC, psb', fe')"
    and "no_indirect_alloc fe fe'"
  shows "portfs_max_extents psb \<le> length (file_extents fe') \<or>
    (\<forall>b \<in> free_blocks psb'. \<exists>e \<in> set (file_extents fe'). ext_length e = 1024 \<and> b = unat (start_block e) + 1024)"
proof -
  have geo: "geometry psb" using assms(1) by (simp add: wf_super_def)
  let ?n = "portfs_max_extents psb - unat (extent_count (file_u fe))"
  obtain xs bm b tree where pool: "free_pool psb xs" and psb': "psb' = psb\<lparr>block_bitmap := bm\<rparr>"
    and tree: "portfs_build_extent_tree (rb_rotations K) (\<lambda>i. kmalloc_ok K (Site_free_extent i)) psb Leaf = Some (b, tree)"
    and xs: "xs = greedy ?n (sint (blocks_wanted psb bytes)) (inorder tree)"
    and used: "used_blocks psb' = used_blocks psb \<union> pool_blocks xs"
    and ext: "file_extents fe' = file_extents fe @ map to_extent xs"
    and r: "Inl ENOSPC = (if sint (blocks_wanted psb bytes) \<le> pool_size xs then Inr () else Inl ENOSPC)"
    using allocate_memory_spec [OF assms(1-3,5-7)] by blast
  from r have "pool_size xs < sint (blocks_wanted psb bytes)" by (auto split: if_splits)
  with greedy_exhausts xs consider "length xs = ?n" | "xs = inorder tree" by blast
  then show ?thesis
  proof cases
    case 1
    then have "portfs_max_extents psb \<le> length (file_extents fe')"
      using ext length_file_extents [OF assms(2)] by simp
    then show ?thesis by simp
  next
    case 2
    have cover: "covers_free psb xs"
      using portfs_build_extent_tree_spec [OF geo, of "rb_rotations K" "\<lambda>i. kmalloc_ok K (Site_free_extent i)"]
        tree assms(4) 2 by (auto simp: memory_ok_def)
    have left: "free_blocks psb' = free_blocks psb - pool_blocks xs"
      using used by (auto simp: free_blocks_def used_blocks_def psb')
    have "\<exists>e \<in> set (file_extents fe'). ext_length e = 1024 \<and> b = unat (start_block e) + 1024"
      if b: "b \<in> free_blocks psb'" for b
    proof -
      from b left cover have "skipped xs b" by (auto simp: covers_free_def pool_blocks_def)
      then obtain x where "x \<in> set xs" "free_length x = 1024" "b = unat (free_start x) + 1024"
        by (auto simp: skipped_def)
      then show ?thesis by (intro bexI [of _ "to_extent x"]) (simp_all add: ext to_extent_def)
    qed
    then show ?thesis by blast
  qed
qed

theorem allocate_memory_enospc_witness:
  "portfs_max_extents (sample_super [0x03, 0xFE]) \<le> length (file_extents (sample_file 0 [(2, 7)])) \<or>
    (\<forall>b \<in> free_blocks (sample_super [0xFF, 0xFF]). \<exists>e \<in> set (file_extents (sample_file 0 [(2, 7)])).
       ext_length e = 1024 \<and> b = unat (start_block e) + 1024)"
  by (rule allocate_memory_enospc [of _ "sample_file 0 []" host_env 1360 "[]"]) (simp_all add: sample_facts)

text \<open>
  C26: The allocator never faults and always returns when memory is available, and reports one of
  three results: success, \<open>ENOSPC\<close>, or \<open>EINVAL\<close> exactly for a request of zero bytes.
\<close>

theorem allocate_memory_returns:
  assumes "wf_super psb" and "entry_shape psb fe" and "kernel_ok K" and "memory_ok K"
  shows "\<exists>r psb' fe'. portfs_allocate_memory K st psb fe bytes = Some (r, psb', fe') \<and>
    (if bytes = 0 then r = Inl EINVAL else r \<in> {Inr (), Inl ENOSPC})"
proof -
  obtain r psb' fe' where z: "portfs_allocate_memory K st psb fe bytes = Some (r, psb', fe')"
    using allocate_memory_safe [OF assms] by (metis prod_cases3)
  then show ?thesis
    by (auto simp: portfs_allocate_memory_def bind_eq_Some_conv Let_def split: if_splits)
qed

theorem allocate_memory_returns_witness:
  "\<exists>r psb' fe'. portfs_allocate_memory host_env [] (sample_super [0x03, 0xFE]) (sample_file 0 []) 300 =
      Some (r, psb', fe') \<and> (if (300 :: u64) = 0 then r = Inl EINVAL else r \<in> {Inr (), Inl ENOSPC})"
  by (rule allocate_memory_returns)
    (use wf_sample_empty [of "[0x03, 0xFE]" 0] in \<open>simp_all add: sample_facts wf_file_def\<close>)

text \<open>
  Without memory the allocator can fault: a file with four or more extents whose indirect
  extents are not loaded, when both attempts to allocate their buffer fail, is written through a
  NULL pointer as soon as there is a free extent to store.
\<close>

theorem allocate_memory_null_dereference:
  assumes "wf_super psb" and "0 < bytes" and "DIRECT_EXTENTS \<le> unat (extent_count (file_u fe))"
    and "unat (extent_count (file_u fe)) < portfs_max_extents psb" and "indirect_extents fe = Null"
    and "\<And>retry. \<not> kmalloc_ok K (Site_indirect retry)" and "\<And>i. kmalloc_ok K (Site_free_extent i)"
    and "free_blocks psb \<noteq> {}"
  shows "portfs_allocate_memory K st psb fe bytes = None"
proof -
  have geo: "geometry psb" and bs: "block_size psb \<noteq> 0"
    using assms(1) by (auto simp: wf_super_def)
  obtain b tree where tree: "portfs_build_extent_tree (rb_rotations K)
      (\<lambda>i. kmalloc_ok K (Site_free_extent i)) psb Leaf = Some (b, tree)"
    and pool: "free_pool psb (inorder tree)" and cover: "covers_free psb (inorder tree)"
    using portfs_build_extent_tree_spec [OF geo, of "rb_rotations K" "\<lambda>i. kmalloc_ok K (Site_free_extent i)"]
      assms(7) by blast
  have "inorder tree \<noteq> []"
    using cover assms(8) by (auto simp: covers_free_def skipped_def)
  then obtain x xs where xs: "inorder tree = x # xs" by (cases "inorder tree") auto
  have "in_storage psb x" using free_pool_elem(3) [OF pool] xs by simp
  from set_extent_bits [OF geo this] obtain bm where
    "set_blocks_allocated (block_bitmap psb) (free_start x) (free_length x) = Some bm" by blast
  moreover have "store_extent K st (unat (extent_count (file_u fe))) x psb' fe = None" for psb'
    using assms(3,5,6) by (simp add: store_extent_def portfs_alloc_indirect_extents_def)
  ultimately show ?thesis
    using assms(2-6) bs tree xs
    by (auto simp: portfs_allocate_memory_def portfs_alloc_indirect_extents_def Let_def)
qed

theorem allocate_memory_null_dereference_witness:
  "portfs_allocate_memory (host_env\<lparr>kmalloc_ok := (\<lambda>site. case site of Site_indirect b \<Rightarrow> False | _ \<Rightarrow> True)\<rparr>) []
     (sample_super [0x03, 0xFE]) (sample_file 0 [(9, 1), (11, 1), (13, 1), (15, 1)]) 100 = None"
proof (rule allocate_memory_null_dereference)
  have "2 \<in> free_blocks (sample_super [0x03, 0xFE])" by code_simp
  then show "free_blocks (sample_super [0x03, 0xFE]) \<noteq> {}" by blast
qed (simp_all add: wf_sample_super, simp_all add: sample_file_def zero_entry_def portfs_max_extents_def sample_super_def)

text \<open>
  \<open>portfs_get_allocated_size\<close> of a well formed file is the block size times the number of its
  blocks, without wrap-around, whatever the geometry.
\<close>

theorem get_allocated_size_exact:
  assumes "wf_file psb fe"
  shows "\<exists>n. portfs_get_allocated_size fe (ucast (block_size psb)) = Some n \<and>
    unat n = unat (block_size psb) * card (file_blocks fe)"
  by (rule allocated_size_blocks [OF assms])

theorem get_allocated_size_exact_witness:
  "\<exists>n. portfs_get_allocated_size (sample_file 0 [(2, 7)]) (ucast (block_size (sample_super [0xFF, 0xFF]))) = Some n \<and>
    unat n = unat (block_size (sample_super [0xFF, 0xFF])) * card (file_blocks (sample_file 0 [(2, 7)]))"
proof (rule get_allocated_size_exact)
  show "wf_file (sample_super [0xFF, 0xFF]) (sample_file 0 [(2, 7)])" by (rule sample_wf)
qed


end
