(* ===== verification/File.thy ===== *)
theory File
  imports Extent_Alloc
begin

text \<open>
  Reading and writing files: \<open>kernel/file.c\<close> without its directory part.  The storage file is
  the list of its bytes.  \<open>byte_map\<close> is the interface between the translation of file positions to
  storage offsets and the loops that transfer data; \<open>contents\<close> is the abstract file.

  The C types are kept: \<open>loff_t\<close> and \<open>size_t\<close> are 64-bit words, compared signed and unsigned as in
  the code, and products of a block number with the block size are computed in 32 bits.
\<close>

section \<open>Translation of file positions\<close>

text \<open>A negative error number in a 64-bit integer.\<close>

definition neg_errno :: "errno \<Rightarrow> u64" where
  "neg_errno e = - of_nat (errno_nat e)"

function global_offset_loop ::
    "portfs_superblock \<Rightarrow> filetable_entry \<Rightarrow> nat \<Rightarrow> u64 \<Rightarrow> u64 option" where
  "global_offset_loop psb fe i offset_remaining =
     (if i < unat (extent_count (file_u fe)) then do {
        ext \<leftarrow> get_extent fe i;
        let ext_size = ucast (ext_length ext * block_size psb);
        if offset_remaining <s ext_size
        then Some (ucast (start_block ext * block_size psb) + offset_remaining)
        else global_offset_loop psb fe (Suc i) (offset_remaining - ext_size) }
      else Some (neg_errno EFAULT))"
  by pat_completeness auto
termination
  by (relation "measure (\<lambda>(psb, fe, i, r). unat (extent_count (file_u fe)) - i)") auto

declare global_offset_loop.simps [simp del]

definition portfs_calc_global_offset :: "portfs_superblock \<Rightarrow> filetable_entry \<Rightarrow> u64 \<Rightarrow> u64 option" where
  "portfs_calc_global_offset psb fe local_offset = global_offset_loop psb fe 0 local_offset"

function available_loop ::
    "portfs_superblock \<Rightarrow> filetable_entry \<Rightarrow> nat \<Rightarrow> u64 \<Rightarrow> u64 \<Rightarrow> u64 option" where
  "available_loop psb fe i global_offset local_offset =
     (if i < unat (extent_count (file_u fe)) then do {
        ext \<leftarrow> get_extent fe i;
        let global_offset = global_offset + ucast (ext_length ext * block_size psb);
        if global_offset > local_offset then Some (global_offset - local_offset)
        else available_loop psb fe (Suc i) global_offset local_offset }
      else Some (neg_errno EFAULT))"
  by pat_completeness auto
termination
  by (relation "measure (\<lambda>(psb, fe, i, g, l). unat (extent_count (file_u fe)) - i)") auto

declare available_loop.simps [simp del]

definition portfs_calc_available_bytes :: "portfs_superblock \<Rightarrow> filetable_entry \<Rightarrow> u64 \<Rightarrow> u64 option" where
  "portfs_calc_available_bytes psb fe local_offset = available_loop psb fe 0 0 local_offset"

section \<open>Reading\<close>

text \<open>
  The loop of \<open>portfs_file_read\<close>, over the two functions that translate positions; \<open>buf\<close> is what the
  kernel buffer holds so far.  It ends because every round transfers at least one byte.
\<close>

function read_loop ::
    "('a::type) kenv_scheme \<Rightarrow> (u64 \<Rightarrow> u64 option) \<Rightarrow> (u64 \<Rightarrow> u64 option) \<Rightarrow> u8 list \<Rightarrow>
     u64 \<Rightarrow> u64 \<Rightarrow> u8 list \<Rightarrow> ((errno + unit) \<times> u64 \<times> u8 list) option" where
  "read_loop K offset avail st pos requested buf =
     (if requested = 0 then Some (Inr (), pos, buf)
      else do {
        global_offset \<leftarrow> offset pos;
        bytes_can_read \<leftarrow> avail pos;
        let bytes_to_read = min requested bytes_can_read;
        if bytes_to_read = 0 then Some (Inr (), pos, buf)
        else (case kernel_read K st global_offset bytes_to_read of
                Inl e \<Rightarrow> Some (Inl EIO, pos, buf)
              | Inr bytes \<Rightarrow>
                  if of_nat (length bytes) \<noteq> bytes_to_read then Some (Inl EIO, pos, buf)
                  else read_loop K offset avail st (pos + bytes_to_read) (requested - bytes_to_read)
                         (buf @ bytes)) })"
  by pat_completeness auto
termination
proof (relation "measure (\<lambda>(K, off, av, st, pos, requested, buf). unat requested)", goal_cases)
  case (2 K off av st pos requested buf g n k bs)
  then have "k \<le> requested" "0 < unat k" by (simp_all add: unat_gt_0)
  then show ?case by (simp add: unat_sub_no_wrap word_le_nat_alt)
qed simp

declare read_loop.simps [simp del]

text \<open>
  The result: the return value, the new position, the bytes copied to the user, and the superblock
  and entry, which loading the indirect extents can change.
\<close>

definition portfs_file_read ::
    "('a::type) kenv_scheme \<Rightarrow> u8 list \<Rightarrow> portfs_superblock \<Rightarrow> filetable_entry \<Rightarrow> bool \<Rightarrow> u64 \<Rightarrow> u64 \<Rightarrow>
     ((errno + u64) \<times> u64 \<times> u8 list \<times> portfs_superblock \<times> filetable_entry) option" where
  "portfs_file_read K st psb fe buf_null cnt pos =
     (if buf_null then Some (Inl EFAULT, pos, [], psb, fe)
      else if size_in_bytes fe \<le> pos then Some (Inr 0, pos, [], psb, fe)
      else do {
        let cnt = (if size_in_bytes fe < pos + cnt then size_in_bytes fe - pos else cnt);
        (psb, fe) \<leftarrow> (if DIRECT_EXTENTS \<le> unat (extent_count (file_u fe)) \<and> indirect_extents fe = Null
           then map_option snd (portfs_alloc_indirect_extents K False st psb fe)
           else Some (psb, fe));
        if \<not> kmalloc_ok K Site_read_buffer then Some (Inl ENOMEM, pos, [], psb, fe)
        else do {
          (r, pos, kbuf) \<leftarrow> read_loop K (portfs_calc_global_offset psb fe)
             (portfs_calc_available_bytes psb fe) st pos cnt [];
          (case r of
             Inl e \<Rightarrow> Some (Inl e, pos, [], psb, fe)
           | Inr _ \<Rightarrow>
               let bytes_read_total = of_nat (length kbuf)
               in if bytes_read_total = cnt
                  then if copy_user_ok K then Some (Inr bytes_read_total, pos, kbuf, psb, fe)
                       else Some (Inl EFAULT, pos, [], psb, fe)
                  else Some (Inr bytes_read_total, pos, [], psb, fe)) } })"

section \<open>Writing\<close>

text \<open>The loop of \<open>portfs_file_write\<close>: the storage, the position, what is left, and the total.\<close>

function write_loop ::
    "('a::type) kenv_scheme \<Rightarrow> (u64 \<Rightarrow> u64 option) \<Rightarrow> (u64 \<Rightarrow> u64 option) \<Rightarrow> u64 \<Rightarrow> u8 list \<Rightarrow>
     u8 list \<Rightarrow> u64 \<Rightarrow> u64 \<Rightarrow> u64 \<Rightarrow> (u8 list \<times> u64 \<times> u64 \<times> u64) option" where
  "write_loop K offset avail data_offset kbuf st pos cnt written =
     (if cnt = 0 then Some (st, pos, cnt, written)
      else do {
        global_offset \<leftarrow> offset pos;
        if global_offset <s data_offset then Some (st, pos, cnt, written)
        else do {
          available_bytes \<leftarrow> avail pos;
          if available_bytes \<le> 0 then Some (st, pos, cnt, written)
          else
            let bytes_to_write = min available_bytes cnt;
                (bytes_written, st') = kernel_write K st global_offset
                   (take (unat bytes_to_write) (drop (unat written) kbuf))
            in if bytes_written \<noteq> Inr bytes_to_write then Some (st', pos, cnt, written)
               else write_loop K offset avail data_offset kbuf st' (pos + bytes_to_write)
                      (cnt - bytes_to_write) (written + bytes_to_write) } })"
  by pat_completeness auto
termination
proof (relation "measure (\<lambda>(K, off, av, d, kbuf, st, pos, cnt, w). unat cnt)", goal_cases)
  case (2 K off av d kbuf st pos cnt w g n k z bw st')
  then have "k \<le> cnt" "0 < unat k" by (simp_all add: unat_gt_0 min_def split: if_splits)
  then show ?case by (simp add: unat_sub_no_wrap word_le_nat_alt)
qed simp

declare write_loop.simps [simp del]

text \<open>
  The results below: the return value, the new position, the storage, the superblock, the entry, and
  the size kept in the inode.  First the part of \<open>portfs_file_write\<close> behind the allocation.
\<close>

definition write_data ::
    "('a::type) kenv_scheme \<Rightarrow> u8 list \<Rightarrow> portfs_superblock \<Rightarrow> filetable_entry \<Rightarrow> u64 \<Rightarrow> u8 list \<Rightarrow> u64 \<Rightarrow>
     ((errno + u64) \<times> u64 \<times> u8 list \<times> portfs_superblock \<times> filetable_entry \<times> u64) option" where
  "write_data K st psb fe i_size buf pos =
     (if \<not> kmalloc_ok K Site_write_buffer then Some (Inl ENOMEM, pos, st, psb, fe, i_size)
      else if \<not> copy_user_ok K then Some (Inl EFAULT, pos, st, psb, fe, i_size)
      else do {
        (st, pos, cnt, written) \<leftarrow> write_loop K (portfs_calc_global_offset psb fe)
           (portfs_calc_available_bytes psb fe) (ucast (data_start psb * block_size psb))
           buf st pos (of_nat (length buf)) 0;
        if cnt = 0 then
          if size_in_bytes fe < pos
          then Some (Inr written, pos, st, psb, fe\<lparr>size_in_bytes := pos\<rparr>, pos)
          else Some (Inr written, pos, st, psb, fe, i_size)
        else Some (Inl EIO, pos, st, psb, fe, i_size) })"

definition portfs_file_write ::
    "('a::type) kenv_scheme \<Rightarrow> u8 list \<Rightarrow> portfs_superblock \<Rightarrow> filetable_entry \<Rightarrow> u64 \<Rightarrow> bool \<Rightarrow> bool \<Rightarrow>
     u8 list \<Rightarrow> u64 \<Rightarrow>
     ((errno + u64) \<times> u64 \<times> u8 list \<times> portfs_superblock \<times> filetable_entry \<times> u64) option" where
  "portfs_file_write K st psb fe i_size buf_null o_append buf pos =
     (if buf_null then Some (Inl EFAULT, pos, st, psb, fe, i_size)
      else do {
        let cnt = (of_nat (length buf) :: u64);
        let pos = (if o_append then size_in_bytes fe else pos);
        allocated_size \<leftarrow> portfs_get_allocated_size fe (ucast (block_size psb));
        let available_size = allocated_size - size_in_bytes fe;
        (err, psb, fe) \<leftarrow> (if available_size < cnt
           then portfs_allocate_memory K st psb fe (cnt - available_size)
           else Some (Inr (), psb, fe));
        (case err of
           Inl e \<Rightarrow> Some (Inl e, pos, st, psb, fe, i_size)
         | Inr _ \<Rightarrow> write_data K st psb fe i_size buf pos) })"

text \<open>Closing a file drops the indirect extents from memory.\<close>

definition portfs_release_file :: "filetable_entry \<Rightarrow> filetable_entry option" where
  "portfs_release_file fe =
     (if indirect_extents fe \<noteq> Null then do {
        _ \<leftarrow> kfree (indirect_extents fe);
        Some (fe\<lparr>indirect_extents := Null\<rparr>) }
      else Some fe)"

section \<open>The abstract file\<close>

text \<open>
  The storage bytes behind a file, in file order, and its contents.  Storage offsets fit into the
  32 bits in which the code computes them when the storage is at most 4 GiB.
\<close>

definition seg :: "portfs_superblock \<Rightarrow> extent \<Rightarrow> nat list" where
  "seg psb e = [unat (start_block e) * unat (block_size psb)..<
                (unat (start_block e) + unat (ext_length e)) * unat (block_size psb)]"

definition addrs :: "portfs_superblock \<Rightarrow> filetable_entry \<Rightarrow> nat list" where
  "addrs psb fe = concat (map (seg psb) (file_extents fe))"

definition contents :: "u8 list \<Rightarrow> portfs_superblock \<Rightarrow> filetable_entry \<Rightarrow> u8 list" where
  "contents st psb fe = map (\<lambda>a. st ! a) (take (unat (size_in_bytes fe)) (addrs psb fe))"

definition addressable :: "portfs_superblock \<Rightarrow> bool" where
  "addressable psb \<longleftrightarrow> 0 < data_start psb \<and> 0 < block_size psb \<and>
     unat (total_blocks psb) * unat (block_size psb) \<le> 2 ^ 32"

lemma length_seg [simp]: "length (seg psb e) = unat (ext_length e) * unat (block_size psb)"
  by (simp add: seg_def algebra_simps)

lemma nth_seg: "i < length (seg psb e) \<Longrightarrow> seg psb e ! i = unat (start_block e) * unat (block_size psb) + i"
  by (simp add: seg_def algebra_simps)

lemma set_seg:
  assumes "0 < block_size psb"
  shows "a \<in> set (seg psb e) \<longleftrightarrow> a div unat (block_size psb) \<in> ext_blocks e"
  using assms
  by (simp add: seg_def ext_blocks_def word_less_nat_alt less_eq_div_iff_mult_less_eq div_less_iff_less_mult)

text \<open>The products of the code do not wrap for the extents of a well formed file.\<close>

lemma extent_products:
  assumes "addressable psb" and "extents_ok psb es" and "e \<in> set es"
  shows "unat (start_block e * block_size psb) = unat (start_block e) * unat (block_size psb)"
    and "unat (ext_length e * block_size psb) = unat (ext_length e) * unat (block_size psb)"
    and "(unat (start_block e) + unat (ext_length e)) * unat (block_size psb) \<le> 2 ^ 32"
    and "0 < unat (ext_length e) * unat (block_size psb)"
proof -
  let ?b = "unat (block_size psb)" and ?s = "unat (start_block e)" and ?l = "unat (ext_length e)"
  have b: "0 < ?b" and ds: "0 < unat (data_start psb)"
    using assms(1) by (simp_all add: addressable_def word_less_nat_alt)
  have e: "0 < ?l" "unat (data_start psb) \<le> ?s" "?s + ?l \<le> unat (total_blocks psb)"
    using assms(2,3) by (auto simp: extents_ok_def word_less_nat_alt)
  have total: "(?s + ?l) * ?b \<le> 2 ^ 32"
    using assms(1) order_trans [OF mult_le_mono1 [OF e(3), of ?b]] unfolding addressable_def by blast
  then show "(?s + ?l) * ?b \<le> 2 ^ 32" .
  have "?s * ?b < (?s + ?l) * ?b" "?l * ?b < (?s + ?l) * ?b" using b e ds by simp_all
  then have "?s * ?b < 2 ^ 32" "?l * ?b < 2 ^ 32" using total by linarith+
  then show "unat (start_block e * block_size psb) = ?s * ?b"
    and "unat (ext_length e * block_size psb) = ?l * ?b"
    by (simp_all add: unat_mult_no_wrap)
  show "0 < ?l * ?b" using e(1) b by simp
qed

lemma length_addrs_le:
  assumes "addressable psb" and "wf_file psb fe"
  shows "length (addrs psb fe) \<le> 2 ^ 32"
proof -
  have "length (addrs psb fe) = (\<Sum>e \<leftarrow> file_extents fe. unat (ext_length e)) * unat (block_size psb)"
    by (simp add: addrs_def length_concat comp_def sum_list_mult_const)
  also have "\<dots> = card (file_blocks fe) * unat (block_size psb)"
    by (simp add: card_file_blocks [OF assms(2)])
  also have "\<dots> \<le> unat (total_blocks psb) * unat (block_size psb)"
  proof (rule mult_le_mono1)
    have "card (file_blocks fe) \<le> card {unat (data_start psb)..<unat (total_blocks psb)}"
      by (rule card_mono) (use file_blocks_bound [OF assms(2)] in auto)
    then show "card (file_blocks fe) \<le> unat (total_blocks psb)" by simp
  qed
  also have "\<dots> \<le> 2 ^ 32" using assms(1) by (simp add: addressable_def)
  finally show ?thesis .
qed

lemma set_addrs:
  "addressable psb \<Longrightarrow> a \<in> set (addrs psb fe) \<longleftrightarrow> a div unat (block_size psb) \<in> file_blocks fe"
  by (simp add: addrs_def addressable_def set_seg file_blocks_def)

lemma addrs_bound:
  assumes "addressable psb" and "wf_file psb fe" and "a \<in> set (addrs psb fe)"
  shows "unat (data_start psb) * unat (block_size psb) \<le> a"
    and "a < unat (total_blocks psb) * unat (block_size psb)"
proof -
  have b: "0 < unat (block_size psb)" using assms(1) by (simp add: addressable_def word_less_nat_alt)
  have "a div unat (block_size psb) \<in> {unat (data_start psb)..<unat (total_blocks psb)}"
    using assms(1,3) file_blocks_bound [OF assms(2)] by (auto simp: set_addrs)
  then show "unat (data_start psb) * unat (block_size psb) \<le> a"
    and "a < unat (total_blocks psb) * unat (block_size psb)"
    using b by (simp_all add: less_eq_div_iff_mult_less_eq div_less_iff_less_mult)
qed

lemma distinct_addrs:
  assumes "addressable psb" and "wf_file psb fe"
  shows "distinct (addrs psb fe)"
proof -
  have b: "0 < block_size psb" using assms(1) by (simp add: addressable_def)
  have "distinct (concat (map (seg psb) es))"
    if "sorted_wrt (\<lambda>e f. ext_blocks e \<inter> ext_blocks f = {}) es" for es
    using that
  proof (induction es)
    case (Cons e es)
    moreover have "distinct (seg psb e)" by (simp add: seg_def)
    moreover have "set (seg psb e) \<inter> set (concat (map (seg psb) es)) = {}"
      using Cons.prems set_seg [OF b] by (fastforce simp del: set_concat simp: set_concat)
    ultimately show ?case by simp
  qed simp
  then show ?thesis using assms(2) by (simp add: addrs_def wf_file_def extents_ok_def)
qed

section \<open>The translation functions follow the address list\<close>

lemma nth_segs:
  assumes "r < length (concat (map (seg psb) (e # es)))"
  shows "concat (map (seg psb) (e # es)) ! r =
    (if r < unat (ext_length e) * unat (block_size psb)
     then unat (start_block e) * unat (block_size psb) + r
     else concat (map (seg psb) es) ! (r - unat (ext_length e) * unat (block_size psb)))"
  using assms by (simp add: nth_append nth_seg)

lemma global_offset_loop_nth:
  assumes ad: "addressable psb" and wf: "wf_file psb fe"
    and r: "unat r < length (concat (map (seg psb) (drop i (file_extents fe))))" and r63: "unat r < 2 ^ 33"
  shows "global_offset_loop psb fe i r = Some (of_nat (concat (map (seg psb) (drop i (file_extents fe))) ! unat r))"
  using r r63
proof (induction "length (file_extents fe) - i" arbitrary: i r)
  case 0
  then show ?case by simp
next
  case (Suc k)
  let ?es = "file_extents fe" and ?b = "unat (block_size psb)"
  have i: "i < length ?es" using Suc.hyps(2) by simp
  let ?e = "?es ! i"
  have ok: "extents_ok psb ?es" using wf by (simp add: wf_file_def)
  note prod = extent_products [OF ad ok nth_mem [OF i]]
  have split: "drop i ?es = ?e # drop (Suc i) ?es" using i by (simp add: Cons_nth_drop_Suc)
  have get: "i < unat (extent_count (file_u fe))" "get_extent fe i = Some ?e"
    using i length_file_extents [OF wf] get_extent_file [OF wf] by simp_all
  let ?size = "ucast (ext_length ?e * block_size psb) :: u64"
  have size: "unat ?size = unat (ext_length ?e) * ?b" by (simp add: prod)
  have cmp: "r <s ?size \<longleftrightarrow> unat r < unat (ext_length ?e) * ?b"
  proof -
    have "unat ?size < 2 ^ 63" by (simp add: less_trans [OF unat_u32_lt])
    then show ?thesis using Suc.prems(2) by (simp add: sless_small word_less_nat_alt size del: unat_ucast_u32_u64)
  qed
  show ?case
  proof (cases "unat r < unat (ext_length ?e) * ?b")
    case True
    have "ucast (start_block ?e * block_size psb) + r = of_nat (unat (start_block ?e) * ?b + unat r)"
      by (simp add: prod(1) [symmetric] del: of_nat_mult)
    with True Suc.prems(1) cmp get show ?thesis
      unfolding split by (subst global_offset_loop.simps) (simp add: nth_segs Let_def del: concat.simps list.map)
  next
    case False
    then have r': "unat (r - ?size) = unat r - unat (ext_length ?e) * ?b"
      by (subst unat_sub_no_wrap) (simp_all add: word_le_nat_alt size del: unat_ucast_u32_u64)
    have "global_offset_loop psb fe (Suc i) (r - ?size) =
        Some (of_nat (concat (map (seg psb) (drop (Suc i) ?es)) ! unat (r - ?size)))"
      by (rule Suc.hyps(1)) (use Suc.prems False Suc.hyps(2) in \<open>simp_all add: r' split\<close>)
    with False Suc.prems(1) cmp get r' show ?thesis
      unfolding split by (subst global_offset_loop.simps) (simp add: nth_segs Let_def del: concat.simps list.map)
  qed
qed

text \<open>
  The available bytes run to the end of the extent: from position \<open>p\<close> that many storage bytes lie
  one behind the other.
\<close>

lemma available_loop_run:
  assumes ad: "addressable psb" and wf: "wf_file psb fe"
    and g: "g \<le> p" "unat p < unat g + length (concat (map (seg psb) (drop i (file_extents fe))))"
      "unat g + length (concat (map (seg psb) (drop i (file_extents fe)))) < 2 ^ 64"
  shows "\<exists>n. available_loop psb fe i g p = Some n \<and> 0 < n \<and>
    unat p + unat n \<le> unat g + length (concat (map (seg psb) (drop i (file_extents fe)))) \<and>
    (\<forall>k < unat n. concat (map (seg psb) (drop i (file_extents fe))) ! (unat p - unat g + k) =
                  concat (map (seg psb) (drop i (file_extents fe))) ! (unat p - unat g) + k)"
  using g
proof (induction "length (file_extents fe) - i" arbitrary: i g)
  case 0
  then show ?case by (simp add: word_le_nat_alt)
next
  case (Suc k)
  let ?es = "file_extents fe" and ?b = "unat (block_size psb)"
  have i: "i < length ?es" using Suc.hyps(2) by simp
  let ?e = "?es ! i"
  have ok: "extents_ok psb ?es" using wf by (simp add: wf_file_def)
  note prod = extent_products [OF ad ok nth_mem [OF i]]
  have split: "drop i ?es = ?e # drop (Suc i) ?es" using i by (simp add: Cons_nth_drop_Suc)
  have get: "i < unat (extent_count (file_u fe))" "get_extent fe i = Some ?e"
    using i length_file_extents [OF wf] get_extent_file [OF wf] by simp_all
  let ?size = "unat (ext_length ?e) * ?b" and ?rest = "concat (map (seg psb) (drop (Suc i) ?es))"
  define g' where "g' = g + ucast (ext_length ?e * block_size psb)"
  have g': "unat g' = unat g + ?size"
    unfolding g'_def using Suc.prems(3) by (subst unat_add_no_wrap) (simp_all add: prod split)
  have len: "length (concat (map (seg psb) (drop i ?es))) = ?size + length ?rest" by (simp add: split)
  have gp: "unat g \<le> unat p" using Suc.prems(1) by (simp add: word_le_nat_alt)
  show ?case
  proof (cases "p < g'")
    case True
    have n: "unat (g' - p) = unat g + ?size - unat p"
      using True g' by (simp add: unat_sub_no_wrap)
    have run: "available_loop psb fe i g p = Some (g' - p)"
      using get True by (subst available_loop.simps) (simp add: Let_def g'_def)
    have lt: "unat p < unat g + ?size" using True g' by (simp add: word_less_nat_alt)
    show ?thesis
    proof (intro exI [of _ "g' - p"] conjI allI impI)
      show "0 < g' - p" using lt n by (simp add: word_less_nat_alt)
      show "unat p + unat (g' - p) \<le> unat g + length (concat (map (seg psb) (drop i ?es)))"
        using lt unfolding n len by simp
      fix j assume "j < unat (g' - p)"
      then have "unat p - unat g + j < ?size" "unat p - unat g < ?size" using n gp lt by simp_all
      then show "concat (map (seg psb) (drop i ?es)) ! (unat p - unat g + j) =
          concat (map (seg psb) (drop i ?es)) ! (unat p - unat g) + j"
        by (simp add: split nth_append nth_seg)
    qed (rule run)
  next
    case False
    then have ge: "unat g + ?size \<le> unat p" using g' by (simp add: word_less_nat_alt)
    have "\<exists>n. available_loop psb fe (Suc i) g' p = Some n \<and> 0 < n \<and>
        unat p + unat n \<le> unat g' + length ?rest \<and>
        (\<forall>k < unat n. ?rest ! (unat p - unat g' + k) = ?rest ! (unat p - unat g') + k)"
    proof (rule Suc.hyps(1))
      show "g' \<le> p" using False by simp
      show "unat p < unat g' + length ?rest" "unat g' + length ?rest < 2 ^ 64"
        using Suc.prems(2,3) unfolding len g' by simp_all
    qed (use Suc.hyps(2) in simp)
    then obtain n where n: "available_loop psb fe (Suc i) g' p = Some n" "0 < n"
        "unat p + unat n \<le> unat g' + length ?rest"
        "\<forall>k < unat n. ?rest ! (unat p - unat g' + k) = ?rest ! (unat p - unat g') + k"
      by blast
    have shift: "concat (map (seg psb) (drop i ?es)) ! (unat p - unat g + j) = ?rest ! (unat p - unat g' + j)" for j
    proof -
      have "unat p - unat g + j = ?size + (unat p - unat g' + j)" using ge g' by simp
      then show ?thesis by (simp add: split nth_append)
    qed
    have run: "available_loop psb fe i g p = Some n"
      using get False n(1) by (subst available_loop.simps) (simp add: Let_def g'_def)
    show ?thesis
      using run n(2-4) shift shift [of 0] unfolding len g' by (intro exI [of _ n]) simp
  qed
qed

text \<open>
  A write reaches exactly the bytes of its positions: \<open>stored\<close> relates the storage before and after
  \<open>data\<close> went to position \<open>q\<close> of the file whose storage bytes are \<open>L\<close>.
\<close>

definition stored :: "nat list \<Rightarrow> nat \<Rightarrow> u8 list \<Rightarrow> u8 list \<Rightarrow> u8 list \<Rightarrow> bool" where
  "stored L q data st st' \<longleftrightarrow> length st' = length st \<and>
     (\<forall>j < length data. st' ! (L ! (q + j)) = data ! j) \<and>
     (\<forall>a < length st. a \<notin> set (take (length data) (drop q L)) \<longrightarrow> st' ! a = st ! a)"

section \<open>The interface between the translation and the transfer loops\<close>

text \<open>
  A map from file positions to storage bytes: \<open>addrs\<close> lists the storage byte of every position, all
  different and between the bounds \<open>lo\<close> and \<open>hi\<close>; \<open>offset\<close> gives the byte of one position and \<open>avail\<close>
  the length of a contiguous run that starts there.
\<close>

locale byte_map =
  fixes ok :: "'p \<Rightarrow> 'f \<Rightarrow> bool"
    and offset avail :: "'p \<Rightarrow> 'f \<Rightarrow> u64 \<Rightarrow> u64 option"
    and bytes_of :: "'p \<Rightarrow> 'f \<Rightarrow> nat list"
    and lo hi :: "'p \<Rightarrow> nat"
  assumes offset_law: "ok p f \<Longrightarrow> unat q < length (bytes_of p f) \<Longrightarrow>
      offset p f q = Some (of_nat (bytes_of p f ! unat q))"
    and avail_law: "ok p f \<Longrightarrow> unat q < length (bytes_of p f) \<Longrightarrow>
      \<exists>n. avail p f q = Some n \<and> 0 < n \<and> unat q + unat n \<le> length (bytes_of p f) \<and>
        (\<forall>k < unat n. bytes_of p f ! (unat q + k) = bytes_of p f ! unat q + k)"
    and bounds_law: "ok p f \<Longrightarrow> a \<in> set (bytes_of p f) \<Longrightarrow> lo p \<le> a \<and> a < hi p"
    and hi_law: "ok p f \<Longrightarrow> hi p \<le> 2 ^ 32"
    and distinct_law: "ok p f \<Longrightarrow> distinct (bytes_of p f)"
    and length_law: "ok p f \<Longrightarrow> length (bytes_of p f) \<le> 2 ^ 32"
begin

text \<open>One round of a transfer: how many bytes it moves and where they lie.\<close>

lemma round:
  assumes "ok p f" and "0 < req" and "unat q + unat req \<le> length (bytes_of p f)"
  shows "\<exists>a n. offset p f q = Some (of_nat a) \<and> avail p f q = Some n \<and>
    unat (of_nat a :: u64) = a \<and> lo p \<le> a \<and> 0 < unat (min n req) \<and> a + unat (min n req) \<le> hi p \<and>
    (\<forall>k < unat (min n req). bytes_of p f ! (unat q + k) = a + k) \<and>
    unat (q + min n req) = unat q + unat (min n req) \<and>
    unat (req - min n req) = unat req - unat (min n req) \<and> unat (min n req) \<le> unat req"
proof -
  let ?L = "bytes_of p f"
  have req: "0 < unat req" using assms(2) by (simp add: word_less_nat_alt)
  then have q: "unat q < length ?L" using assms(3) by simp
  obtain n where n: "avail p f q = Some n" "0 < n" "unat q + unat n \<le> length ?L"
      "\<forall>k < unat n. ?L ! (unat q + k) = ?L ! unat q + k"
    using avail_law [OF assms(1) q] by blast
  define k where "k = min n req"
  have k: "0 < unat k" "unat k \<le> unat n" "unat k \<le> unat req"
    using n(2) assms(2) by (auto simp: k_def min_def word_less_nat_alt word_le_nat_alt)
  have last: "?L ! (unat q + (unat k - 1)) = ?L ! unat q + (unat k - 1)"
    using n(4) [rule_format, of "unat k - 1"] k by linarith
  have "?L ! (unat q + (unat k - 1)) < hi p" "lo p \<le> ?L ! unat q" "?L ! unat q < hi p"
    using bounds_law [OF assms(1)] q n(3) k by simp_all
  then have a: "?L ! unat q + unat k \<le> hi p" "lo p \<le> ?L ! unat q" "?L ! unat q < 2 ^ 64"
    using last k(1) hi_law [OF assms(1)] by simp_all
  have "unat (q + k) = unat q + unat k"
    using assms(3) k(3) length_law [OF assms(1)] by (intro unat_add_no_wrap) simp
  moreover have "unat (req - k) = unat req - unat k"
    using k(3) by (intro unat_sub_no_wrap) (simp add: word_le_nat_alt)
  ultimately show ?thesis
    using n a k offset_law [OF assms(1) q] unfolding k_def [symmetric]
    by (intro exI [of _ "?L ! unat q"] exI [of _ n]) (simp add: unat_of_nat k_def)
qed

lemma read_loop_slice:
  assumes "ok p f" and "kernel_ok K" and "hi p \<le> length st" and "length st < 2 ^ 63"
    and "unat pos + unat req \<le> length (bytes_of p f)"
  shows "read_loop K (offset p f) (avail p f) st pos req buf =
    Some (Inr (), pos + req, buf @ map ((!) st) (take (unat req) (drop (unat pos) (bytes_of p f))))"
  using assms(5)
proof (induction "unat req" arbitrary: pos req buf rule: less_induct)
  case less
  let ?L = "bytes_of p f"
  show ?case
  proof (cases "req = 0")
    case True
    then show ?thesis by (subst read_loop.simps) simp
  next
    case False
    then have "0 < req" by (simp add: word_gt_0)
    from round [OF assms(1) this less.prems] obtain a n where
      r: "offset p f pos = Some (of_nat a)" "avail p f pos = Some n" "unat (of_nat a :: u64) = a"
        "0 < unat (min n req)" "a + unat (min n req) \<le> hi p"
        "\<forall>k < unat (min n req). ?L ! (unat pos + k) = a + k"
        "unat (pos + min n req) = unat pos + unat (min n req)"
        "unat (req - min n req) = unat req - unat (min n req)" "unat (min n req) \<le> unat req"
      by blast
    define k where "k = min n req"
    note r = r [folded k_def]
    have chunk: "take (unat k) (drop a st) = map ((!) st) (take (unat k) (drop (unat pos) ?L))"
      by (rule nth_equalityI) (use r assms(3) less.prems in auto)
    have "kernel_read K st (of_nat a) k = Inr (take (unat k) (drop a st))"
      using kernel_ok_read [OF assms(2,4), of "of_nat a" k] r assms(3) by simp
    moreover have "k \<noteq> 0" using r(4) by auto
    moreover have "of_nat (length (take (unat k) (drop a st))) = k" using r(5) assms(3) by simp
    ultimately have "read_loop K (offset p f) (avail p f) st pos req buf =
        read_loop K (offset p f) (avail p f) st (pos + k) (req - k) (buf @ take (unat k) (drop a st))"
      using False r(1,2) by (subst read_loop.simps) (simp add: Let_def k_def [symmetric] min.commute [of req n])
    also have "\<dots> = Some (Inr (), pos + k + (req - k), (buf @ take (unat k) (drop a st)) @
        map ((!) st) (take (unat (req - k)) (drop (unat (pos + k)) ?L)))"
      using r less.prems by (intro less.hyps) simp_all
    also have "\<dots> = Some (Inr (), pos + req, buf @ map ((!) st) (take (unat req) (drop (unat pos) ?L)))"
    proof -
      have "take (unat req) xs = take (unat k) xs @ take (unat req - unat k) (drop (unat k) xs)" for xs :: "nat list"
        using r(9) by (metis le_add_diff_inverse take_add)
      from this [of "drop (unat pos) ?L"] show ?thesis
        by (simp add: chunk r(7,8)) (simp add: add.commute)
    qed
    finally show ?thesis .
  qed
qed

lemma stored_append:
  assumes "ok p f" and "q + length xs + length ys \<le> length (bytes_of p f)" and "hi p \<le> length st"
    and "stored (bytes_of p f) q xs st st1" and "stored (bytes_of p f) (q + length xs) ys st1 st2"
  shows "stored (bytes_of p f) q (xs @ ys) st st2"
proof -
  let ?L = "bytes_of p f"
  have split: "take (length (xs @ ys)) (drop q ?L) =
      take (length xs) (drop q ?L) @ take (length ys) (drop (q + length xs) ?L)"
    by (simp add: take_add add.commute)
  have inside: "?L ! (q + j) < length st" if "j < length xs" for j
    using that bounds_law [OF assms(1)] assms(2,3) by (meson less_le_trans add_less_le_mono
        less_or_eq_imp_le nth_mem trans_less_add1 add_le_mono le_refl nat_add_left_cancel_less)
  have later: "?L ! (q + j) \<notin> set (take (length ys) (drop (q + length xs) ?L))" if "j < length xs" for j
    using that distinct_law [OF assms(1)] assms(2)
    by (auto simp: in_set_conv_nth nth_eq_iff_index_eq)
  have "st2 ! (?L ! (q + j)) = (xs @ ys) ! j" if "j < length (xs @ ys)" for j
  proof (cases "j < length xs")
    case True
    then show ?thesis
      using assms(4,5) inside [OF True] later [OF True] by (simp add: stored_def nth_append)
  next
    case False
    then show ?thesis
      using assms(5) that spec [where x = "j - length xs"]
      by (simp add: stored_def nth_append) (metis add_diff_inverse_nat nat_add_left_cancel_less add.assoc)
  qed
  then show ?thesis using assms(4,5) unfolding stored_def split by simp
qed

lemma write_loop_stores:
  assumes "ok p f" and "kernel_ok K" and "hi p \<le> length st" and "length st < 2 ^ 63"
    and "unat pos + unat cnt \<le> length (bytes_of p f)" and "unat data_offset \<le> lo p"
    and "unat written + unat cnt = length kbuf" and "length kbuf < 2 ^ 64"
  shows "\<exists>st'. write_loop K (offset p f) (avail p f) data_offset kbuf st pos cnt written =
      Some (st', pos + cnt, 0, written + cnt) \<and>
    stored (bytes_of p f) (unat pos) (drop (unat written) kbuf) st st'"
  using assms(3,4,5,7)
proof (induction "unat cnt" arbitrary: pos cnt written st rule: less_induct)
  case less
  let ?L = "bytes_of p f"
  show ?case
  proof (cases "cnt = 0")
    case True
    with less.prems(4) show ?thesis by (subst write_loop.simps) (simp add: stored_def)
  next
    case False
    then have "0 < cnt" by (simp add: word_gt_0)
    from round [OF assms(1) this less.prems(3)] obtain a n where
      r: "offset p f pos = Some (of_nat a)" "avail p f pos = Some n" "unat (of_nat a :: u64) = a"
        "lo p \<le> a" "0 < unat (min n cnt)" "a + unat (min n cnt) \<le> hi p"
        "\<forall>k < unat (min n cnt). ?L ! (unat pos + k) = a + k"
        "unat (pos + min n cnt) = unat pos + unat (min n cnt)"
        "unat (cnt - min n cnt) = unat cnt - unat (min n cnt)" "unat (min n cnt) \<le> unat cnt"
      by blast
    define k where "k = min n cnt"
    note r = r [folded k_def]
    define chunk where "chunk = take (unat k) (drop (unat written) kbuf)"
    have len: "length chunk = unat k" using less.prems(4) r(10) by (simp add: chunk_def)
    have wr: "unat (written + k) = unat written + unat k"
      using less.prems(4) r(10) assms(8) by (intro unat_add_no_wrap) simp
    define st1 where "st1 = overwrite st a chunk"
    have a_st: "a + length chunk \<le> length st" using r(6) len less.prems(1) by simp
    have kw: "kernel_write K st (of_nat a) chunk = (Inr k, st1)"
      using kernel_ok_write [OF assms(2) less.prems(2), of "of_nat a" chunk] a_st r(3) len by (simp add: st1_def)
    have nz: "n \<noteq> 0" "k \<noteq> 0" using r(5) by (auto simp: k_def)
    have above: "\<not> of_nat a <s data_offset"
      using r(3,4,6) assms(6) hi_law [OF assms(1)] bounds_law by (subst sless_small) (simp_all add: word_less_nat_alt)
    have first: "stored ?L (unat pos) chunk st st1"
      unfolding stored_def
    proof (intro conjI allI impI)
      show "length st1 = length st" using a_st by (simp add: st1_def)
      fix j assume "j < length chunk"
      then show "st1 ! (?L ! (unat pos + j)) = chunk ! j"
        using r(7) len a_st by (simp add: st1_def nth_overwrite)
    next
      fix b assume b: "b < length st" "b \<notin> set (take (length chunk) (drop (unat pos) ?L))"
      have "b \<noteq> a + j" if "j < unat k" for j
        using b(2) that r(7) r(10) less.prems(3) len by (auto simp: in_set_conv_nth)
      then have "\<not> (a \<le> b \<and> b < a + length chunk)" using len by (metis le_iff_add nat_add_left_cancel_less)
      then show "st1 ! b = st ! b" using b(1) a_st unfolding st1_def by (subst nth_overwrite) auto
    qed
    have "\<exists>st'. write_loop K (offset p f) (avail p f) data_offset kbuf st1 (pos + k) (cnt - k) (written + k) =
        Some (st', pos + k + (cnt - k), 0, written + k + (cnt - k)) \<and>
      stored ?L (unat (pos + k)) (drop (unat (written + k)) kbuf) st1 st'"
      using r less.prems a_st by (intro less.hyps) (simp_all add: wr st1_def)
    then obtain st' where st': "write_loop K (offset p f) (avail p f) data_offset kbuf st1 (pos + k) (cnt - k) (written + k) =
        Some (st', pos + cnt, 0, written + cnt)"
      "stored ?L (unat pos + length chunk) (drop (unat written + unat k) kbuf) st1 st'"
      by (auto simp: r(8) wr len)
    have "stored ?L (unat pos) (chunk @ drop (unat written + unat k) kbuf) st st'"
      using less.prems len r(10) by (intro stored_append [OF assms(1) _ _ first st'(2)]) simp_all
    moreover have "chunk @ drop (unat written + unat k) kbuf = drop (unat written) kbuf"
      unfolding chunk_def by (metis add.commute append_take_drop_id drop_drop)
    moreover have "write_loop K (offset p f) (avail p f) data_offset kbuf st pos cnt written =
        write_loop K (offset p f) (avail p f) data_offset kbuf st1 (pos + k) (cnt - k) (written + k)"
      using False r(1,2) above nz kw
      by (subst write_loop.simps) (simp add: Let_def k_def [symmetric] chunk_def [symmetric])
    ultimately show ?thesis using st'(1) by auto
  qed
qed

end

interpretation file_map: byte_map "\<lambda>psb fe. addressable psb \<and> wf_file psb fe"
    portfs_calc_global_offset portfs_calc_available_bytes addrs
    "\<lambda>psb. unat (data_start psb) * unat (block_size psb)"
    "\<lambda>psb. unat (total_blocks psb) * unat (block_size psb)"
proof (unfold_locales, goal_cases)
  case (1 psb fe q)
  then have "length (addrs psb fe) \<le> 2 ^ 32" using length_addrs_le by blast
  with 1 global_offset_loop_nth [of psb fe q 0] show ?case
    by (simp add: portfs_calc_global_offset_def addrs_def)
next
  case (2 psb fe q)
  then have "length (addrs psb fe) \<le> 2 ^ 32" using length_addrs_le by blast
  with 2 available_loop_run [of psb fe 0 q 0] show ?case
    by (simp add: portfs_calc_available_bytes_def addrs_def)
next
  case (3 psb fe a)
  then show ?case using addrs_bound by blast
next
  case (4 psb fe)
  then show ?case by (simp add: addressable_def)
next
  case (5 psb fe)
  then show ?case using distinct_addrs by blast
next
  case (6 psb fe)
  then show ?case using length_addrs_le by blast
qed

section \<open>Files of the file system\<close>

text \<open>
  The state in which a file is used: the storage holds all blocks, the file's size lies within its
  extents.  \<open>loaded\<close> says that no operation has to load or allocate the indirect extents first.
\<close>

definition storage_ok :: "portfs_superblock \<Rightarrow> u8 list \<Rightarrow> bool" where
  "storage_ok psb st \<longleftrightarrow> addressable psb \<and>
     unat (total_blocks psb) * unat (block_size psb) \<le> length st \<and> length st < 2 ^ 63"

definition file_ok :: "portfs_superblock \<Rightarrow> filetable_entry \<Rightarrow> bool" where
  "file_ok psb fe \<longleftrightarrow> wf_file psb fe \<and> unat (size_in_bytes fe) \<le> length (addrs psb fe)"

definition loaded :: "filetable_entry \<Rightarrow> bool" where
  "loaded fe \<longleftrightarrow> unat (extent_count (file_u fe)) < DIRECT_EXTENTS \<or> indirect_extents fe \<noteq> Null"

lemma file_extents_size [simp]: "file_extents (fe\<lparr>size_in_bytes := n\<rparr>) = file_extents fe"
  by (simp add: file_extents_def slots_def)

lemma file_blocks_size [simp]: "file_blocks (fe\<lparr>size_in_bytes := n\<rparr>) = file_blocks fe"
  by (simp add: file_blocks_def)

lemma addrs_size [simp]: "addrs psb (fe\<lparr>size_in_bytes := n\<rparr>) = addrs psb fe"
  by (simp add: addrs_def)

lemma wf_file_size [simp]: "wf_file psb (fe\<lparr>size_in_bytes := n\<rparr>) = wf_file psb fe"
  by (simp add: wf_file_def entry_shape_def slots_def)

lemma addrs_bitmap [simp]: "addrs (psb\<lparr>block_bitmap := bm\<rparr>) fe = addrs psb fe"
proof -
  have "seg (psb\<lparr>block_bitmap := bm\<rparr>) = seg psb" by (rule ext) (simp add: seg_def)
  then show ?thesis by (simp add: addrs_def)
qed

lemma addressable_bitmap [simp]: "addressable (psb\<lparr>block_bitmap := bm\<rparr>) = addressable psb"
  by (simp add: addressable_def)

lemma storage_ok_bitmap [simp]: "storage_ok (psb\<lparr>block_bitmap := bm\<rparr>) st = storage_ok psb st"
  by (simp add: storage_ok_def)

lemma length_addrs: "wf_file psb fe \<Longrightarrow> length (addrs psb fe) = unat (block_size psb) * card (file_blocks fe)"
  by (simp add: addrs_def length_concat comp_def sum_list_mult_const card_file_blocks mult.commute)

lemma length_contents [simp]: "file_ok psb fe \<Longrightarrow> length (contents st psb fe) = unat (size_in_bytes fe)"
  by (simp add: contents_def file_ok_def)

lemma data_offset: "storage_ok psb st \<Longrightarrow> unat (ucast (data_start psb * block_size psb) :: u64) \<le>
    unat (data_start psb) * unat (block_size psb)"
  by (simp add: unat_word_ariths)

section \<open>What a write does\<close>

text \<open>
  The result of a successful write, before it is read as a change of the contents: the file after a
  possible allocation, whose storage bytes extend the old ones, and the bytes stored.
\<close>

definition wrote :: "portfs_superblock \<Rightarrow> filetable_entry \<Rightarrow> u64 \<Rightarrow> u8 list \<Rightarrow> u8 list \<Rightarrow>
    u8 list \<Rightarrow> portfs_superblock \<Rightarrow> filetable_entry \<Rightarrow> bool" where
  "wrote psb fe pos buf st st' psb' fe' \<longleftrightarrow>
     (\<exists>bm. psb' = psb\<lparr>block_bitmap := bm\<rparr> \<and> length bm = length (block_bitmap psb)) \<and>
     (\<exists>new. addrs psb' fe' = addrs psb fe @ new) \<and>
     file_blocks fe \<subseteq> file_blocks fe' \<and> file_blocks fe' - file_blocks fe \<subseteq> free_blocks psb \<and>
     used_blocks psb' = used_blocks psb \<union> file_blocks fe' \<and>
     stored (addrs psb' fe') (unat pos) buf st st' \<and>
     unat pos + length buf \<le> length (addrs psb' fe') \<and> wf_file psb' fe' \<and>
     size_in_bytes fe' = max (size_in_bytes fe) (pos + of_nat (length buf)) \<and> mode fe' = mode fe"

text \<open>The allocation of a write, and what runs behind it.\<close>

definition write_room ::
    "('a::type) kenv_scheme \<Rightarrow> u8 list \<Rightarrow> portfs_superblock \<Rightarrow> filetable_entry \<Rightarrow> u64 \<Rightarrow> u64 \<Rightarrow>
     ((errno + unit) \<times> portfs_superblock \<times> filetable_entry) option" where
  "write_room K st psb fe available cnt =
     (if available < cnt then portfs_allocate_memory K st psb fe (cnt - available)
      else Some (Inr (), psb, fe))"

lemma file_write_unfold:
  assumes "portfs_get_allocated_size fe (ucast (block_size psb)) = Some a"
  shows "portfs_file_write K st psb fe i_size False o_append buf pos =
    (case write_room K st psb fe (a - size_in_bytes fe) (of_nat (length buf)) of None \<Rightarrow> None
     | Some (err, psb1, fe1) \<Rightarrow> (case err of
          Inl e \<Rightarrow> Some (Inl e, if o_append then size_in_bytes fe else pos, st, psb1, fe1, i_size)
        | Inr _ \<Rightarrow> write_data K st psb1 fe1 i_size buf (if o_append then size_in_bytes fe else pos)))"
  unfolding portfs_file_write_def write_room_def Let_def if_False assms bind.bind_lunit
  by (simp split: option.split)

lemma file_write_cases:
  assumes "portfs_file_write K st psb fe i_size False o_append buf pos = Some R"
    and "portfs_get_allocated_size fe (ucast (block_size psb)) = Some a"
  shows "\<exists>err psb1 fe1. write_room K st psb fe (a - size_in_bytes fe) (of_nat (length buf)) = Some (err, psb1, fe1) \<and>
    (case err of Inl e \<Rightarrow> Some (Inl e, if o_append then size_in_bytes fe else pos, st, psb1, fe1, i_size)
     | Inr _ \<Rightarrow> write_data K st psb1 fe1 i_size buf (if o_append then size_in_bytes fe else pos)) = Some R"
  using assms(1) unfolding file_write_unfold [OF assms(2)]
  by (auto split: option.splits split del: if_split)

lemma write_data_Inr:
  assumes "write_data K st psb fe i_size buf pos = Some (Inr n, pos', st', psb', fe', i_size')"
    and "write_loop K (portfs_calc_global_offset psb fe) (portfs_calc_available_bytes psb fe)
           (ucast (data_start psb * block_size psb)) buf st pos (of_nat (length buf)) 0 = Some (st2, p2, 0, n2)"
  shows "n = n2 \<and> pos' = p2 \<and> st' = st2 \<and> psb' = psb \<and>
      fe' = (if size_in_bytes fe < p2 then fe\<lparr>size_in_bytes := p2\<rparr> else fe) \<and>
      i_size' = (if size_in_bytes fe < p2 then p2 else i_size)"
  using assms by (auto simp: write_data_def split: if_splits)

lemma write_data_entry:
  assumes "write_data K st psb fe i_size buf pos = Some (Inr n, pos', st', psb', fe', i_size')"
  shows "fe' = fe \<or> (\<exists>sz. fe' = fe\<lparr>size_in_bytes := sz\<rparr>)"
  using assms by (auto simp: write_data_def bind_eq_Some_conv split: if_splits)

lemma write_loop_file:
  assumes "storage_ok psb st" and "wf_file psb fe" and "kernel_ok K"
    and "unat pos + length buf \<le> length (addrs psb fe)"
  shows "\<exists>st'. write_loop K (portfs_calc_global_offset psb fe) (portfs_calc_available_bytes psb fe)
      (ucast (data_start psb * block_size psb)) buf st pos (of_nat (length buf)) 0 =
      Some (st', pos + of_nat (length buf), 0, of_nat (length buf)) \<and>
    stored (addrs psb fe) (unat pos) buf st st'"
proof -
  have ad: "addressable psb" using assms(1) by (simp add: storage_ok_def)
  then have len: "unat (of_nat (length buf) :: u64) = length buf" "length buf < 2 ^ 64"
    using assms(4) length_addrs_le [OF ad assms(2)] by (simp_all add: unat_of_nat)
  have "addressable psb \<and> wf_file psb fe" using ad assms(2) by simp
  from file_map.write_loop_stores [OF this assms(3), of st pos "of_nat (length buf)" _ 0 buf]
  show ?thesis
    using assms(1,4) data_offset [OF assms(1)] len by (simp add: storage_ok_def)
qed

lemma available_size:
  assumes "file_ok psb fe"
  shows "\<exists>a. portfs_get_allocated_size fe (ucast (block_size psb)) = Some a \<and>
    unat (a - size_in_bytes fe) = length (addrs psb fe) - unat (size_in_bytes fe)"
proof -
  have wf: "wf_file psb fe" and size: "unat (size_in_bytes fe) \<le> length (addrs psb fe)"
    using assms by (simp_all add: file_ok_def)
  obtain a where a: "portfs_get_allocated_size fe (ucast (block_size psb)) = Some a"
      "unat a = length (addrs psb fe)"
    using allocated_size_blocks [OF wf] by (auto simp: length_addrs [OF wf])
  with size have "unat (a - size_in_bytes fe) = unat a - unat (size_in_bytes fe)"
    by (intro unat_sub_no_wrap) (simp add: word_le_nat_alt)
  with a show ?thesis by auto
qed

text \<open>What an allocation for \<open>need\<close> bytes means for the bytes of the file.\<close>

lemma allocated_for_write:
  assumes "wf_super psb" and "file_ok psb fe" and "kernel_ok K" and "0 < need"
    and "portfs_allocate_memory K st psb fe need = Some (Inr (), psb', fe')"
    and "no_indirect_alloc fe fe'" and "unat need + unat (block_size psb) < 2 ^ 50"
  shows "wf_file psb' fe' \<and> (\<exists>bm. psb' = psb\<lparr>block_bitmap := bm\<rparr> \<and> length bm = length (block_bitmap psb)) \<and>
    (\<exists>new. addrs psb' fe' = addrs psb fe @ new) \<and> size_in_bytes fe' = size_in_bytes fe \<and> mode fe' = mode fe \<and>
    length (addrs psb fe) + unat need \<le> length (addrs psb' fe') \<and>
    file_blocks fe \<subseteq> file_blocks fe' \<and> file_blocks fe' - file_blocks fe \<subseteq> free_blocks psb \<and>
    used_blocks psb' = used_blocks psb \<union> file_blocks fe'"
proof -
  have wf: "wf_file psb fe" using assms(2) by (simp add: file_ok_def)
  obtain xs bm where spec: "free_pool psb xs" "psb' = psb\<lparr>block_bitmap := bm\<rparr>"
    "length bm = length (block_bitmap psb)" "used_blocks psb' = used_blocks psb \<union> pool_blocks xs"
    "file_extents fe' = file_extents fe @ map to_extent xs" "same_but_extents fe fe'" "wf_file psb' fe'"
    "unat need \<le> unat (block_size psb) * card (pool_blocks xs)"
    using allocate_memory_success [OF assms(1) wf assms(3-7)] by blast
  note blocks = new_blocks [OF wf spec(1,5)]
  have "file_blocks fe \<inter> pool_blocks xs = {}"
    using file_blocks_used [OF wf] pool_blocks_free [OF spec(1)] used_not_free by blast
  moreover have "finite (file_blocks fe)" "finite (pool_blocks xs)"
    by (simp_all add: file_blocks_def pool_blocks_def fx_blocks_def)
  ultimately have "card (file_blocks fe') = card (file_blocks fe) + card (pool_blocks xs)"
    unfolding blocks(1) by (intro card_Un_disjoint)
  then have "length (addrs psb' fe') = length (addrs psb fe) + unat (block_size psb) * card (pool_blocks xs)"
    using length_addrs [OF spec(7)] length_addrs [OF wf] by (simp add: spec(2) distrib_left)
  moreover have "addrs psb' fe' = addrs psb fe @ concat (map (seg psb) (map to_extent xs))"
    unfolding spec(2) addrs_bitmap by (simp add: addrs_def spec(5))
  moreover have "used_blocks psb \<union> pool_blocks xs = used_blocks psb \<union> file_blocks fe'"
    using blocks(1) file_blocks_used [OF wf] by blast
  ultimately show ?thesis
    using spec blocks pool_blocks_free [OF spec(1)] by (auto simp: same_but_extents_def)
qed

lemma unat_of_nat_small: "n < 2 ^ 64 \<Longrightarrow> unat (of_nat n :: u64) = n"
  by (simp add: unat_of_nat)

lemma file_write_spec:
  assumes super: "wf_super psb" and st: "storage_ok psb st" and fok: "file_ok psb fe" and K: "kernel_ok K"
    and res: "portfs_file_write K st psb fe i_size False o_append buf pos = Some (Inr n, pos', st', psb', fe', i_size')"
    and quiet: "no_indirect_alloc fe fe'"
    and p: "p = (if o_append then size_in_bytes fe else pos)" "p \<le> size_in_bytes fe"
    and small: "length buf + unat (size_in_bytes fe) + unat (block_size psb) < 2 ^ 50"
  shows "n = of_nat (length buf) \<and> pos' = p + n \<and> wrote psb fe p buf st st' psb' fe' \<and>
    i_size' = (if size_in_bytes fe < p + n then p + n else i_size)"
proof -
  define cnt where "cnt = (of_nat (length buf) :: u64)"
  have cnt: "unat cnt = length buf" using small by (simp add: cnt_def unat_of_nat_small)
  have wf: "wf_file psb fe" and size: "unat (size_in_bytes fe) \<le> length (addrs psb fe)"
    using fok by (simp_all add: file_ok_def)
  have p_le: "unat p \<le> unat (size_in_bytes fe)" using p(2) by (simp add: word_le_nat_alt)
  obtain a where a: "portfs_get_allocated_size fe (ucast (block_size psb)) = Some a"
      "unat (a - size_in_bytes fe) = length (addrs psb fe) - unat (size_in_bytes fe)"
    using available_size [OF fok] by blast
  define av where "av = a - size_in_bytes fe"
  note a = a [folded av_def]
  obtain err psb1 fe1 where alloc: "write_room K st psb fe av cnt = Some (err, psb1, fe1)"
    and rest: "(case err of Inl e \<Rightarrow> Some (Inl e, p, st, psb1, fe1, i_size)
         | Inr _ \<Rightarrow> write_data K st psb1 fe1 i_size buf p) = Some (Inr n, pos', st', psb', fe', i_size')"
    using file_write_cases [OF res a(1)] unfolding p(1) cnt_def av_def by blast
  from rest have err: "err = Inr ()"
    and data: "write_data K st psb1 fe1 i_size buf p = Some (Inr n, pos', st', psb', fe', i_size')"
    by (cases err; simp)+
  have quiet1: "no_indirect_alloc fe fe1"
    using quiet write_data_entry [OF data] by (auto simp: no_indirect_alloc_def)
  have file1: "wf_file psb1 fe1 \<and> (\<exists>bm. psb1 = psb\<lparr>block_bitmap := bm\<rparr> \<and> length bm = length (block_bitmap psb)) \<and>
    (\<exists>new. addrs psb1 fe1 = addrs psb fe @ new) \<and> size_in_bytes fe1 = size_in_bytes fe \<and> mode fe1 = mode fe \<and>
    unat (size_in_bytes fe) + length buf \<le> length (addrs psb1 fe1) \<and>
    file_blocks fe \<subseteq> file_blocks fe1 \<and> file_blocks fe1 - file_blocks fe \<subseteq> free_blocks psb \<and>
    used_blocks psb1 = used_blocks psb \<union> file_blocks fe1"
  proof (cases "av < cnt")
    case True
    then have need: "unat (cnt - av) = length buf - unat av" "0 < cnt - av"
      using cnt unat_sub_no_wrap [OF less_imp_le [OF True]] by (simp_all add: word_less_nat_alt)
    from True alloc err have run: "portfs_allocate_memory K st psb fe (cnt - av) = Some (Inr (), psb1, fe1)"
      by (simp add: write_room_def)
    have "unat (cnt - av) + unat (block_size psb) < 2 ^ 50" using need(1) small by simp
    from allocated_for_write [OF super fok K need(2) run quiet1 this] show ?thesis
      using need(1) a(2) size by (fastforce simp del: unat_sub_no_wrap)
  next
    case False
    with alloc have "psb1 = psb" "fe1 = fe" by (simp_all add: write_room_def)
    moreover have "unat (size_in_bytes fe) + length buf \<le> length (addrs psb fe)"
      using False cnt a(2) size by (simp add: word_less_nat_alt)
    ultimately show ?thesis using wf file_blocks_used [OF wf] by (auto intro: exI [of _ "block_bitmap psb"])
  qed
  then have st1: "storage_ok psb1 st" using st by auto
  obtain st2 where st2: "write_loop K (portfs_calc_global_offset psb1 fe1) (portfs_calc_available_bytes psb1 fe1)
      (ucast (data_start psb1 * block_size psb1)) buf st p cnt 0 = Some (st2, p + cnt, 0, cnt)"
    "stored (addrs psb1 fe1) (unat p) buf st st2"
    using write_loop_file [OF st1 _ K, of fe1 p buf] file1 p_le unfolding cnt_def by force
  from write_data_Inr [OF data st2(1) [unfolded cnt_def]] have
    fin: "n = cnt" "pos' = p + cnt" "st' = st2" "psb' = psb1"
      "fe' = (if size_in_bytes fe1 < p + cnt then fe1\<lparr>size_in_bytes := p + cnt\<rparr> else fe1)"
      "i_size' = (if size_in_bytes fe1 < p + cnt then p + cnt else i_size)"
    by (simp_all add: cnt_def)
  have eq: "wf_file psb1 fe' = wf_file psb1 fe1" "addrs psb1 fe' = addrs psb1 fe1" "file_blocks fe' = file_blocks fe1"
      "mode fe' = mode fe1"
    by (simp_all add: fin(5))
  have "size_in_bytes fe' = max (size_in_bytes fe) (p + cnt)"
    using file1 by (auto simp: fin(5) max_def)
  then show ?thesis
    using file1 st2(2) fin p_le unfolding wrote_def eq cnt_def [symmetric] by (auto simp: eq)
qed

lemma wrote_size:
  assumes "file_ok psb fe" and "wrote psb fe p buf st st' psb' fe'"
    and "p \<le> size_in_bytes fe" and "length buf + unat (size_in_bytes fe) < 2 ^ 64"
  shows "unat (size_in_bytes fe') = max (unat (size_in_bytes fe)) (unat p + length buf)" and "file_ok psb' fe'"
proof -
  have len: "unat (of_nat (length buf) :: u64) = length buf" using assms(4) by (simp add: unat_of_nat_small)
  have "unat p + length buf < 2 ^ 64" using assms(3,4) by (simp add: word_le_nat_alt)
  then have "unat (p + of_nat (length buf)) = unat p + length buf"
    using len by (subst unat_add_no_wrap) simp_all
  then show size': "unat (size_in_bytes fe') = max (unat (size_in_bytes fe)) (unat p + length buf)"
    using assms(2) by (auto simp: wrote_def max_def word_le_nat_alt)
  show "file_ok psb' fe'"
  proof -
    have "length (addrs psb fe) \<le> length (addrs psb' fe')" "wf_file psb' fe'"
        "unat p + length buf \<le> length (addrs psb' fe')"
      using assms(2) by (auto simp: wrote_def)
    with assms(1) show ?thesis by (simp add: file_ok_def size')
  qed
qed

lemma wrote_contents:
  assumes st: "storage_ok psb st" and fok: "file_ok psb fe" and w: "wrote psb fe p buf st st' psb' fe'"
    and p: "p \<le> size_in_bytes fe" and small: "length buf + unat (size_in_bytes fe) < 2 ^ 64"
  shows "contents st' psb' fe' = overwrite (contents st psb fe) (unat p) buf"
proof -
  let ?L = "addrs psb' fe'" and ?n = "length buf"
  note size' = wrote_size [OF fok w p small]
  have p_le: "unat p \<le> unat (size_in_bytes fe)" using p by (simp add: word_le_nat_alt)
  have wf': "wf_file psb' fe'" and ad': "addressable psb'" and st': "stored ?L (unat p) buf st st'"
    and fits: "unat p + ?n \<le> length ?L" and hi: "unat (total_blocks psb') * unat (block_size psb') \<le> length st"
    using w st by (auto simp: wrote_def storage_ok_def)
  obtain new where new: "?L = addrs psb fe @ new" using w by (auto simp: wrote_def)
  have size_le: "unat (size_in_bytes fe) \<le> length (addrs psb fe)" using fok by (simp add: file_ok_def)
  have size_le': "unat (size_in_bytes fe') \<le> length ?L" using size'(2) by (simp add: file_ok_def)
  show ?thesis
  proof (rule nth_equalityI)
    show len: "length (contents st' psb' fe') = length (overwrite (contents st psb fe) (unat p) buf)"
      using size' fok p_le by (auto simp: overwrite_def)
    fix i assume "i < length (contents st' psb' fe')"
    then have i: "i < unat (size_in_bytes fe')" using size'(2) by simp
    then have lhs: "contents st' psb' fe' ! i = st' ! (?L ! i)"
      using size_le' by (simp add: contents_def)
    show "contents st' psb' fe' ! i = overwrite (contents st psb fe) (unat p) buf ! i"
    proof (cases "unat p \<le> i \<and> i < unat p + ?n")
      case True
      have j: "i - unat p < ?n" "unat p + (i - unat p) = i" using True by auto
      have "\<forall>j < ?n. st' ! (?L ! (unat p + j)) = buf ! j" using st' by (simp add: stored_def)
      with j have "st' ! (?L ! i) = buf ! (i - unat p)" by metis
      then show ?thesis using True j(1) lhs p_le fok by (simp add: overwrite_def nth_append)
    next
      case False
      then have i_old: "i < unat (size_in_bytes fe)" using i size'(1) p_le by auto
      have "?L ! i \<notin> set (take ?n (drop (unat p) ?L))"
      proof
        assume "?L ! i \<in> set (take ?n (drop (unat p) ?L))"
        then obtain j where "j < ?n" "?L ! i = ?L ! (unat p + j)"
          using fits by (auto simp: in_set_conv_nth)
        then show False
          using False fits i size_le' distinct_addrs [OF ad' wf'] by (auto simp: nth_eq_iff_index_eq)
      qed
      moreover have "?L ! i < length st"
        using addrs_bound(2) [OF ad' wf', of "?L ! i"] i size_le' hi by simp
      ultimately have "st' ! (?L ! i) = st ! (addrs psb fe ! i)"
        using st' i_old size_le by (simp add: stored_def new nth_append)
      moreover have "overwrite (contents st psb fe) (unat p) buf ! i = contents st psb fe ! i"
        using False i_old p_le fok by (auto simp: overwrite_def nth_append)
      ultimately show ?thesis using lhs i_old size_le by (simp add: contents_def)
    qed
  qed
qed


section \<open>What a read returns\<close>

lemma file_read_spec:
  assumes st: "storage_ok psb st" and fok: "file_ok psb fe" and K: "kernel_ok K" "kmalloc_ok K Site_read_buffer" "copy_user_ok K"
    and loaded: "loaded fe" and small: "unat pos + unat cnt < 2 ^ 64"
  shows "portfs_file_read K st psb fe False cnt pos =
    (let data = take (unat cnt) (drop (unat pos) (contents st psb fe))
     in Some (Inr (of_nat (length data)), pos + of_nat (length data), data, psb, fe))"
proof (cases "size_in_bytes fe \<le> pos")
  case True
  then have "drop (unat pos) (contents st psb fe) = []" using fok by (simp add: word_le_nat_alt)
  with True show ?thesis by (simp add: portfs_file_read_def)
next
  case False
  let ?size = "size_in_bytes fe" and ?data = "take (unat cnt) (drop (unat pos) (contents st psb fe))"
  define n where "n = (if ?size < pos + cnt then ?size - pos else cnt)"
  have pos: "unat pos < unat ?size" using False by (simp add: word_le_nat_alt not_le)
  have "unat (pos + cnt) = unat pos + unat cnt" using small by (intro unat_add_no_wrap) simp
  then have n: "unat n = min (unat cnt) (unat ?size - unat pos)"
    using pos by (auto simp: n_def word_less_nat_alt unat_sub_no_wrap word_le_nat_alt)
  have fine: "addressable psb \<and> wf_file psb fe" and fits: "unat pos + unat n \<le> length (addrs psb fe)"
    using st fok n pos by (auto simp: storage_ok_def file_ok_def)
  have data: "?data = map ((!) st) (take (unat n) (drop (unat pos) (addrs psb fe)))"
  proof -
    have "?data = map ((!) st) (take (unat cnt) (drop (unat pos) (take (unat ?size) (addrs psb fe))))"
      by (simp add: contents_def take_map drop_map)
    then show ?thesis by (simp add: n drop_take take_take min.commute)
  qed
  have len: "length ?data = unat n" unfolding data using fits by simp
  have run: "read_loop K (portfs_calc_global_offset psb fe) (portfs_calc_available_bytes psb fe) st pos n [] =
      Some (Inr (), pos + n, ?data)"
    using file_map.read_loop_slice [OF fine K(1), of st pos n "[]"] st fits by (simp add: storage_ok_def data)
  have "of_nat (length ?data) = n" unfolding len by simp
  moreover have load: "(if DIRECT_EXTENTS \<le> unat (extent_count (file_u fe)) \<and> indirect_extents fe = Null
      then map_option snd (portfs_alloc_indirect_extents K False st psb fe) else Some (psb, fe)) = Some (psb, fe)"
    using loaded by (auto simp: loaded_def)
  ultimately show ?thesis
    using False K(2,3) run unfolding portfs_file_read_def Let_def n_def [symmetric] load by simp
qed

section \<open>A concrete write\<close>

lemma tiny_facts:
  "wf_super (tiny_super [0x03, 0xFE])" "storage_ok (tiny_super [0x03, 0xFE]) (replicate 128 0)"
  "file_ok (tiny_super [0x03, 0xFE]) (sample_file 0 [])"
  "no_indirect_alloc (sample_file 0 []) (sample_file 10 [(2, 7)])"
proof -
  have "wf_super (sample_super [0x03, 0xFE])" by (rule wf_sample_super) simp_all
  then show "wf_super (tiny_super [0x03, 0xFE])"
    by (simp add: wf_super_def geometry_def portfs_max_extents_def tiny_super_def)
  show "storage_ok (tiny_super [0x03, 0xFE]) (replicate 128 0)"
    by (simp add: storage_ok_def addressable_def tiny_super_def sample_super_def)
  show "file_ok (tiny_super [0x03, 0xFE]) (sample_file 0 [])"
    using wf_sample_empty [of "[0x03, 0xFE]" 0]
    by (simp add: file_ok_def wf_file_def tiny_super_def sample_file_def zero_entry_def
        entry_shape_def file_extents_def extents_ok_def)
  show "no_indirect_alloc (sample_file 0 []) (sample_file 10 [(2, 7)])"
    by (simp add: no_indirect_alloc_def sample_file_def)
qed

lemma tiny_write:
  "portfs_file_write host_env (replicate 128 0) (tiny_super [0x03, 0xFE]) (sample_file 0 []) 0 False False
     [1, 2, 3, 4, 5, 6, 7, 8, 9, 10] 0 =
   Some (Inr 10, 10, replicate 16 0 @ [1, 2, 3, 4, 5, 6, 7, 8, 9, 10] @ replicate 102 0,
         tiny_super [0xFF, 0xFF], sample_file 10 [(2, 7)], 10)"
  by code_simp

lemma tiny_wrote:
  "wrote (tiny_super [0x03, 0xFE]) (sample_file 0 []) 0 [1, 2, 3, 4, 5, 6, 7, 8, 9, 10] (replicate 128 0)
     (replicate 16 0 @ [1, 2, 3, 4, 5, 6, 7, 8, 9, 10] @ replicate 102 0)
     (tiny_super [0xFF, 0xFF]) (sample_file 10 [(2, 7)])"
  using file_write_spec [OF tiny_facts(1-3) host_env_ok tiny_write tiny_facts(4) refl]
  by (simp add: sample_file_def zero_entry_def tiny_super_def sample_super_def)

lemma tiny_file:
  "file_ok (tiny_super [0xFF, 0xFF]) (sample_file 10 [(2, 7)])"
  "storage_ok (tiny_super [0xFF, 0xFF]) (replicate 16 0 @ [1, 2, 3, 4, 5, 6, 7, 8, 9, 10] @ replicate 102 0)"
proof -
  show "file_ok (tiny_super [0xFF, 0xFF]) (sample_file 10 [(2, 7)])"
    by (rule wrote_size(2) [OF tiny_facts(3) tiny_wrote]) (simp_all add: sample_file_def)
  show "storage_ok (tiny_super [0xFF, 0xFF]) (replicate 16 0 @ [1, 2, 3, 4, 5, 6, 7, 8, 9, 10] @ replicate 102 0)"
    by (simp add: storage_ok_def addressable_def tiny_super_def sample_super_def)
qed

section \<open>Properties\<close>



text \<open>
  C13: A successful write is the write of the abstract file: all bytes are written, the contents
  become the old contents with the data laid over them from the position on (appended where they
  reach past the end), the file stays well formed with its size inside its extents, and every block
  it gained was free.  This covers the allocation of new extents and \<open>O_APPEND\<close>.
\<close>

theorem file_write_correct:
  assumes "wf_super psb" and "storage_ok psb st" and "file_ok psb fe" and "kernel_ok K"
    and "portfs_file_write K st psb fe i_size False o_append buf pos = Some (Inr n, pos', st', psb', fe', i_size')"
    and "no_indirect_alloc fe fe'"
    and "p = (if o_append then size_in_bytes fe else pos)" and "p \<le> size_in_bytes fe"
    and "length buf + unat (size_in_bytes fe) + unat (block_size psb) < 2 ^ 50"
  shows "n = of_nat (length buf) \<and> pos' = p + n \<and>
    contents st' psb' fe' = overwrite (contents st psb fe) (unat p) buf \<and>
    file_ok psb' fe' \<and> storage_ok psb' st' \<and> file_blocks fe' - file_blocks fe \<subseteq> free_blocks psb \<and>
    used_blocks psb' = used_blocks psb \<union> file_blocks fe'"
proof -
  have w: "n = of_nat (length buf)" "pos' = p + n" "wrote psb fe p buf st st' psb' fe'"
    using file_write_spec [OF assms] by simp_all
  have small: "length buf + unat (size_in_bytes fe) < 2 ^ 64" using assms(9) by simp
  note size = wrote_size [OF assms(3) w(3) assms(8) small]
  have "storage_ok psb' st'"
    using w(3) assms(2) by (auto simp: wrote_def stored_def storage_ok_def)
  then show ?thesis
    using w size(2) wrote_contents [OF assms(2,3) w(3) assms(8) small] by (auto simp: wrote_def)
qed

theorem file_write_correct_witness:
  "contents (replicate 16 0 @ [1, 2, 3, 4, 5, 6, 7, 8, 9, 10] @ replicate 102 0) (tiny_super [0xFF, 0xFF])
     (sample_file 10 [(2, 7)]) =
   overwrite (contents (replicate 128 0) (tiny_super [0x03, 0xFE]) (sample_file 0 [])) (unat (0 :: u64))
     [1, 2, 3, 4, 5, 6, 7, 8, 9, 10]"
  using file_write_correct [OF tiny_facts(1-3) host_env_ok tiny_write tiny_facts(4) refl]
  by (simp add: sample_file_def zero_entry_def tiny_super_def sample_super_def)



text \<open>
  C15: A read returns exactly the requested slice of the contents, cut at the end of the file, moves
  the position by its length, and changes neither the file nor the file system, as long as the
  indirect extents need not be loaded.
\<close>

theorem file_read_correct:
  assumes "storage_ok psb st" and "file_ok psb fe" and "kernel_ok K" and "kmalloc_ok K Site_read_buffer"
    and "copy_user_ok K" and "loaded fe" and "unat pos + unat cnt < 2 ^ 64"
  shows "portfs_file_read K st psb fe False cnt pos =
    (let data = take (unat cnt) (drop (unat pos) (contents st psb fe))
     in Some (Inr (of_nat (length data)), pos + of_nat (length data), data, psb, fe))"
  by (rule file_read_spec [OF assms])

theorem file_read_correct_witness:
  "portfs_file_read host_env (replicate 16 0 @ [1, 2, 3, 4, 5, 6, 7, 8, 9, 10] @ replicate 102 0)
     (tiny_super [0xFF, 0xFF]) (sample_file 10 [(2, 7)]) False 100 7 =
   (let data = take (unat (100 :: u64)) (drop (unat (7 :: u64))
      (contents (replicate 16 0 @ [1, 2, 3, 4, 5, 6, 7, 8, 9, 10] @ replicate 102 0) (tiny_super [0xFF, 0xFF])
        (sample_file 10 [(2, 7)])))
    in Some (Inr (of_nat (length data)), 7 + of_nat (length data), data, tiny_super [0xFF, 0xFF],
             sample_file 10 [(2, 7)]))"
proof (rule file_read_correct)
  show "loaded (sample_file 10 [(2, 7)])" by (simp add: loaded_def sample_file_def)
qed (use tiny_file host_env_ok in \<open>simp_all add: host_env_def\<close>)

text \<open>
  C16: What was written is read back: reading as many bytes at the place of a successful write
  returns exactly the written data.
\<close>

theorem write_then_read:
  assumes "wf_super psb" and "storage_ok psb st" and "file_ok psb fe" and "kernel_ok K"
    and "portfs_file_write K st psb fe i_size False o_append buf pos = Some (Inr n, pos', st', psb', fe', i_size')"
    and "no_indirect_alloc fe fe'"
    and "p = (if o_append then size_in_bytes fe else pos)" and "p \<le> size_in_bytes fe"
    and "length buf + unat (size_in_bytes fe) + unat (block_size psb) < 2 ^ 50"
    and "loaded fe'" and "kmalloc_ok K Site_read_buffer" and "copy_user_ok K"
  shows "portfs_file_read K st' psb' fe' False n p = Some (Inr n, pos', buf, psb', fe')"
proof -
  have w: "n = of_nat (length buf)" "pos' = p + n" "wrote psb fe p buf st st' psb' fe'"
    using file_write_spec [OF assms(1-9)] by simp_all
  have small: "length buf + unat (size_in_bytes fe) < 2 ^ 64" using assms(9) by simp
  note size = wrote_size [OF assms(3) w(3) assms(8) small]
  have st': "storage_ok psb' st'"
    using w(3) assms(2) by (auto simp: wrote_def stored_def storage_ok_def)
  have n: "unat n = length buf" using assms(9) by (simp add: w(1) unat_of_nat_small)
  have p: "unat p \<le> unat (size_in_bytes fe)" using assms(8) by (simp add: word_le_nat_alt)
  have "take (unat n) (drop (unat p) (contents st' psb' fe')) = buf"
    unfolding wrote_contents [OF assms(2,3) w(3) assms(8) small] using p assms(3)
    by (simp add: overwrite_def n)
  moreover have "unat p + unat n < 2 ^ 64" using p small by (simp add: n)
  ultimately show ?thesis
    using file_read_spec [OF st' size(2) assms(4,11,12,10), of p n] by (simp add: Let_def w(1,2))
qed

theorem write_then_read_witness:
  "portfs_file_read host_env (replicate 16 0 @ [1, 2, 3, 4, 5, 6, 7, 8, 9, 10] @ replicate 102 0)
     (tiny_super [0xFF, 0xFF]) (sample_file 10 [(2, 7)]) False 10 0 =
   Some (Inr 10, 10, [1, 2, 3, 4, 5, 6, 7, 8, 9, 10], tiny_super [0xFF, 0xFF], sample_file 10 [(2, 7)])"
  by (rule write_then_read [OF tiny_facts(1-3) host_env_ok tiny_write tiny_facts(4)])
    (simp_all add: sample_file_def zero_entry_def tiny_super_def sample_super_def loaded_def host_env_def)




text \<open>
  C23: When a write stops because no space is left, nothing is lost: the storage is untouched, the
  file keeps its contents and size, and it stays well formed with whatever extents it received.
\<close>

theorem file_write_enospc_keeps_contents:
  assumes "wf_super psb" and "file_ok psb fe" and "kernel_ok K"
    and "portfs_file_write K st psb fe i_size False o_append buf pos = Some (Inl ENOSPC, pos', st', psb', fe', i_size')"
    and "no_indirect_alloc fe fe'"
  shows "st' = st \<and> i_size' = i_size \<and> file_ok psb' fe' \<and> contents st' psb' fe' = contents st psb fe"
proof -
  have wf: "wf_file psb fe" and size: "unat (size_in_bytes fe) \<le> length (addrs psb fe)"
    using assms(2) by (simp_all add: file_ok_def)
  obtain a where a: "portfs_get_allocated_size fe (ucast (block_size psb)) = Some a"
    using available_size [OF assms(2)] by blast
  obtain err psb1 fe1 where room: "write_room K st psb fe (a - size_in_bytes fe) (of_nat (length buf)) = Some (err, psb1, fe1)"
    and rest: "(case err of Inl e \<Rightarrow> Some (Inl e, if o_append then size_in_bytes fe else pos, st, psb1, fe1, i_size)
     | Inr _ \<Rightarrow> write_data K st psb1 fe1 i_size buf (if o_append then size_in_bytes fe else pos)) =
       Some (Inl ENOSPC, pos', st', psb', fe', i_size')"
    using file_write_cases [OF assms(4) a] by blast
  have "write_data K st psb1 fe1 i_size buf p \<noteq> Some (Inl ENOSPC, pos', st', psb', fe', i_size')" for p
    by (auto simp: write_data_def bind_eq_Some_conv split: if_splits)
  with rest have err: "err = Inl ENOSPC" and eq: "st' = st" "psb' = psb1" "fe' = fe1" "i_size' = i_size"
    by (cases err; auto)+
  from room err have run: "portfs_allocate_memory K st psb fe (of_nat (length buf) - (a - size_in_bytes fe)) =
        Some (Inl ENOSPC, psb1, fe1)" and "a - size_in_bytes fe < of_nat (length buf)"
    by (auto simp: write_room_def split: if_splits)
  then have "0 < of_nat (length buf) - (a - size_in_bytes fe)"
    by (metis eq_iff_diff_eq_0 less_irrefl word_gt_0)
  from allocate_memory_spec [OF assms(1) wf assms(3) this run] obtain xs bm where
    spec: "psb1 = psb\<lparr>block_bitmap := bm\<rparr>" "file_extents fe1 = file_extents fe @ map to_extent xs"
      "same_but_extents fe fe1" "wf_file psb1 fe1"
    using assms(5) eq by blast
  have "addrs psb1 fe1 = addrs psb fe @ concat (map (seg psb) (map to_extent xs))"
    unfolding spec(1) addrs_bitmap by (simp add: addrs_def spec(2))
  moreover have "size_in_bytes fe1 = size_in_bytes fe" using spec(3) by (simp add: same_but_extents_def)
  ultimately show ?thesis
    using size spec(4) by (simp add: eq file_ok_def contents_def)
qed

lemma tiny_write_enospc:
  "portfs_file_write host_env (replicate 128 0) (tiny_super [0x03, 0xFE]) (sample_file 0 []) 0 False False
     (replicate 100 7) 0 =
   Some (Inl ENOSPC, 0, replicate 128 0, tiny_super [0xFF, 0xFF], sample_file 0 [(2, 7)], 0)"
  by code_simp

theorem file_write_enospc_keeps_contents_witness:
  "file_ok (tiny_super [0xFF, 0xFF]) (sample_file 0 [(2, 7)]) \<and>
   contents (replicate 128 0) (tiny_super [0xFF, 0xFF]) (sample_file 0 [(2, 7)]) =
   contents (replicate 128 0) (tiny_super [0x03, 0xFE]) (sample_file 0 [])"
proof -
  have "no_indirect_alloc (sample_file 0 []) (sample_file 0 [(2, 7)])"
    by (simp add: no_indirect_alloc_def sample_file_def)
  from file_write_enospc_keeps_contents [OF tiny_facts(1,3) host_env_ok tiny_write_enospc this]
  show ?thesis by blast
qed

text \<open>
  C25: A file with more than four extents cannot be written after it was closed once: closing drops
  the indirect extents from memory, and a write asks for the allocated size first, which follows the
  NULL pointer.
\<close>

theorem write_after_close_faults:
  assumes "length (direct_extents (file_u fe)) = DIRECT_EXTENTS"
    and "DIRECT_EXTENTS < unat (extent_count (file_u fe))"
    and "portfs_release_file fe = Some fe'"
  shows "portfs_file_write K st psb fe' i_size False o_append buf pos = None"
proof -
  have fe': "indirect_extents fe' = Null" "file_u fe' = file_u fe"
    using assms(3) by (auto simp: portfs_release_file_def bind_eq_Some_conv split: if_splits)
  have direct: "get_extent fe' i = Some (direct_extents (file_u fe) ! i)" if "i < DIRECT_EXTENTS" for i
    using that assms(1) by (simp add: get_extent_def fe' array_simps)
  have indirect: "get_extent fe' DIRECT_EXTENTS = None" by (simp add: get_extent_def fe')
  have fault: "sum_lengths fe' i acc = None" if "i \<le> DIRECT_EXTENTS" for i acc
    using that
  proof (induction "DIRECT_EXTENTS - i" arbitrary: i acc)
    case 0
    with assms(2) show ?case
      using indirect by (subst sum_lengths.simps) (simp add: fe')
  next
    case (Suc k)
    then have "i < DIRECT_EXTENTS" and "k = DIRECT_EXTENTS - Suc i" by simp_all
    with Suc.hyps(1) [of "Suc i"] direct assms(2) show ?case
      by (subst sum_lengths.simps) (simp add: fe')
  qed
  show ?thesis by (simp add: portfs_file_write_def portfs_get_allocated_size_def fault Let_def)
qed

theorem write_after_close_faults_witness:
  "portfs_file_write host_env [] (sample_super [0xFF]) (the (portfs_release_file
     ((sample_file 0 [(2, 1), (3, 1), (4, 1), (5, 1)])\<lparr>indirect_extents := Live [zero_extent],
        file_u := (file_u (sample_file 0 [(2, 1), (3, 1), (4, 1), (5, 1)]))\<lparr>extent_count := 5\<rparr>\<rparr>)))
     0 False False [1] 0 = None"
  by (rule write_after_close_faults
      [of "(sample_file 0 [(2, 1), (3, 1), (4, 1), (5, 1)])\<lparr>indirect_extents := Live [zero_extent],
        file_u := (file_u (sample_file 0 [(2, 1), (3, 1), (4, 1), (5, 1)]))\<lparr>extent_count := 5\<rparr>\<rparr>"])
    (simp_all add: sample_file_def portfs_release_file_def)




text \<open>
  Reading allocates: a read inside a file of exactly four extents asks for the indirect extents,
  although the file has none, and thereby takes the least free block of the storage for them.
\<close>

theorem read_allocates_indirect_block:
  assumes "geometry psb" and "free_blocks psb \<noteq> {}" and "pos < size_in_bytes fe"
    and "unat (extent_count (file_u fe)) = DIRECT_EXTENTS" and "indirect_extents fe = Null"
    and "extents_block (file_u fe) = 0" and "kmalloc_ok K (Site_indirect False)"
    and "portfs_file_read K st psb fe False cnt pos = Some (r, pos', data, psb', fe')"
  shows "unat (extents_block (file_u fe')) = Min (free_blocks psb) \<and>
    used_blocks psb' = insert (Min (free_blocks psb)) (used_blocks psb)"
proof -
  define b where "b = (of_nat (Min (free_blocks psb)) :: u32)"
  have in_free: "Min (free_blocks psb) \<in> free_blocks psb" using assms(2) by simp
  then have lt: "Min (free_blocks psb) < unat (total_blocks psb)" by (simp add: free_blocks_def)
  then have b: "unat b = Min (free_blocks psb)"
    using free_block_bound [OF in_free] by (simp add: b_def unat_of_nat)
  have "b \<noteq> -1"
  proof
    assume "b = -1"
    then have "unat b = 4294967295" by (simp add: unsigned_minus_1_eq_mask mask_eq_exp_minus_1)
    then show False using lt unat_u32_lt [of "total_blocks psb"] unfolding b by linarith
  qed
  moreover have "find_free_block psb = Some b"
    using find_free_block_cases [OF assms(1)] assms(2) by (simp add: b_def)
  moreover obtain bm where bm: "set_block_allocated (block_bitmap psb) b = Some bm"
      "bits_of bm = insert (unat b) (bits_of (block_bitmap psb))"
    using set_block_allocated_bits [of b "block_bitmap psb"] lt assms(1) by (auto simp: b geometry_def)
  ultimately obtain fe1 where alloc: "portfs_alloc_indirect_extents K False st psb fe =
      Some (Inr (), psb\<lparr>block_bitmap := bm\<rparr>, fe1)" "extents_block (file_u fe1) = b"
    using assms(5-7) by (simp add: portfs_alloc_indirect_extents_def Let_def)
  have "psb' = psb\<lparr>block_bitmap := bm\<rparr> \<and> fe' = fe1"
    using assms(3,4,5,8) alloc
    by (auto simp: portfs_file_read_def Let_def bind_eq_Some_conv dest!: not_Inr_unit
        split: if_splits sum.split_asm)
  then show ?thesis using alloc(2) b bm(2) by (simp add: used_blocks_def)
qed

theorem read_allocates_indirect_block_witness:
  "\<exists>r pos' data psb' fe'. portfs_file_read host_env (replicate 128 0) (tiny_super [0x3F, 0])
      (sample_file 20 [(2, 1), (3, 1), (4, 1), (5, 1)]) False 4 0 = Some (r, pos', data, psb', fe') \<and>
    unat (extents_block (file_u fe')) = 6"
proof -
  have "portfs_file_read host_env (replicate 128 0) (tiny_super [0x3F, 0])
      (sample_file 20 [(2, 1), (3, 1), (4, 1), (5, 1)]) False 4 0 \<noteq> None"
    by code_simp
  then obtain r pos' data psb' fe' where run: "portfs_file_read host_env (replicate 128 0) (tiny_super [0x3F, 0])
      (sample_file 20 [(2, 1), (3, 1), (4, 1), (5, 1)]) False 4 0 = Some (r, pos', data, psb', fe')"
    by (metis not_None_eq prod_cases5)
  have free: "free_blocks (tiny_super [0x3F, 0]) = {6, 7, 8, 9, 10, 11, 12, 13, 14, 15}" by code_simp
  have geo: "geometry (tiny_super [0x3F, 0])" by (simp add: geometry_def tiny_super_def sample_super_def)
  have "unat (extents_block (file_u fe')) = Min (free_blocks (tiny_super [0x3F, 0]))"
    using read_allocates_indirect_block [OF geo _ _ _ _ _ _ run]
    by (simp add: free sample_file_def zero_entry_def host_env_def)
  then show ?thesis using run by (auto simp: free)
qed

end
