(* ===== verification/Directory.thy ===== *)
theory Directory
  imports Extent_Alloc
begin

text \<open>
  Directories: \<open>kernel/directory.h\<close> and \<open>kernel/directory.c\<close>.  A directory is one block of fixed-size
  entries, kept in memory as an array of names and inode numbers; number 0 marks a free entry.  Names
  are C strings in buffers of 64 bytes, and \<open>strncpy\<close> and \<open>strcmp\<close> are modelled with the behaviour
  the code depends on: no terminator for a string that fills its buffer, and a fault (\<open>None\<close>) where a
  comparison runs out of the buffer.  \<open>name_table\<close> is the interface a directory offers: a partial map
  from names to inode numbers.
\<close>

section \<open>C strings\<close>

abbreviation MAX_NAME_LENGTH :: nat where
  "MAX_NAME_LENGTH \<equiv> 64"

text \<open>The bytes that \<open>strncpy(dst, src, n)\<close> stores; reading \<open>src\<close> beyond its memory is a fault.\<close>

definition strncpy :: "nat \<Rightarrow> u8 list \<Rightarrow> u8 list option" where
  "strncpy n src =
     (let s = takeWhile (\<lambda>c. c \<noteq> 0) src
      in if n \<le> length s \<or> length s < length src then Some (take n (s @ replicate n 0)) else None)"

text \<open>Whether \<open>strcmp(a, b) == 0\<close>.\<close>

fun strcmp_eq :: "u8 list \<Rightarrow> u8 list \<Rightarrow> bool option" where
  "strcmp_eq (a # as) (b # bs) =
     (if a \<noteq> b then Some False else if a = 0 then Some True else strcmp_eq as bs)"
| "strcmp_eq as bs = None"

text \<open>A name as the kernel passes it: with its terminator.\<close>

definition c_string :: "u8 list \<Rightarrow> u8 list" where
  "c_string name = name @ [0]"

section \<open>Helpers of the header\<close>

definition is_directory :: "filetable_entry \<Rightarrow> bool" where
  "is_directory fe = S_ISDIR (mode fe)"

definition get_direct_extents :: "filetable_entry \<Rightarrow> extent list option" where
  "get_direct_extents fe = (if is_directory fe then None else Some (direct_extents (file_u fe)))"

definition get_dir_block :: "filetable_entry \<Rightarrow> u32" where
  "get_dir_block fe = (if is_directory fe then dir_block (dir_u fe) else 0)"

definition set_dir_block :: "filetable_entry \<Rightarrow> u32 \<Rightarrow> filetable_entry" where
  "set_dir_block fe b = (if is_directory fe then fe\<lparr>dir_u := (dir_u fe)\<lparr>dir_block := b\<rparr>\<rparr> else fe)"

text \<open>A \<open>disk_dir_entry\<close> is 68 bytes long; the number of entries goes through a 16-bit integer.\<close>

definition get_max_dir_entries :: "portfs_superblock \<Rightarrow> nat" where
  "get_max_dir_entries psb = unat (ucast (block_size psb div 68) :: u16)"

definition zero_dir_entry :: dir_entry where
  "zero_dir_entry = \<lparr>de_name = replicate MAX_NAME_LENGTH 0, inode_number = 0\<rparr>"

section \<open>Loading a directory\<close>

text \<open>The result is a C \<open>int\<close> that the caller keeps in 32 unsigned bits.\<close>

definition portfs_de_alloc_block ::
    "portfs_superblock \<Rightarrow> filetable_entry \<Rightarrow> (u32 \<times> portfs_superblock \<times> filetable_entry) option" where
  "portfs_de_alloc_block psb parent_dir = do {
     dir_block \<leftarrow> find_free_block psb;
     if dir_block = -1 then Some (- of_nat (errno_nat ENOSPC), psb, parent_dir)
     else do {
       bm \<leftarrow> set_block_allocated (block_bitmap psb) dir_block;
       Some (dir_block, psb\<lparr>block_bitmap := bm\<rparr>, set_dir_block parent_dir dir_block) } }"

text \<open>One entry of the block: the name cut to 63 bytes and terminated.\<close>

definition read_dir_entry :: "u8 list \<Rightarrow> dir_entry option" where
  "read_dir_entry bytes = do {
     name \<leftarrow> strncpy MAX_NAME_LENGTH (take MAX_NAME_LENGTH bytes);
     Some \<lparr>de_name = name[MAX_NAME_LENGTH - 1 := 0],
           inode_number = be_word (take 4 (drop MAX_NAME_LENGTH bytes))\<rparr> }"

fun read_dir_entries :: "u8 list \<Rightarrow> nat \<Rightarrow> dir_entry list option" where
  "read_dir_entries buf 0 = Some []"
| "read_dir_entries buf (Suc n) = do {
     e \<leftarrow> read_dir_entry (take 68 buf);
     es \<leftarrow> read_dir_entries (drop 68 buf) n;
     Some (e # es) }"

definition portfs_load_dir_data ::
    "('a::type) kenv_scheme \<Rightarrow> u8 list \<Rightarrow> portfs_superblock \<Rightarrow> filetable_entry \<Rightarrow>
     ((errno + unit) \<times> portfs_superblock \<times> filetable_entry) option" where
  "portfs_load_dir_data K st psb parent_dir =
     (let num_entries = get_max_dir_entries psb
      in if \<not> kmalloc_ok K Site_dir_entries
         then Some (Inl ENOMEM, psb, parent_dir\<lparr>dir_entries := Null\<rparr>)
         else
           let parent_dir = parent_dir\<lparr>dir_entries := Live (replicate num_entries zero_dir_entry)\<rparr>;
               dir_block = get_dir_block parent_dir
           in if dir_block = 0 then do {
                (dir_block, psb, parent_dir) \<leftarrow> portfs_de_alloc_block psb parent_dir;
                if dir_block < 0 then Some (Inl ENOSPC, psb, parent_dir\<lparr>dir_entries := Null\<rparr>)
                else Some (Inr (), psb, parent_dir) }
              else if \<not> kmalloc_ok K Site_dir_buffer then Some (Inl ENOMEM, psb, parent_dir)
              else
                let offset = ucast (dir_block * block_size psb) :: u64
                in case kernel_read K st offset (ucast (block_size psb)) of
                     Inl e \<Rightarrow> Some (Inl e, psb, parent_dir\<lparr>dir_entries := Dangling\<rparr>)
                   | Inr buf \<Rightarrow>
                       if length buf \<noteq> unat (block_size psb)
                       then Some (Inl EIO, psb, parent_dir\<lparr>dir_entries := Dangling\<rparr>)
                       else do {
                         es \<leftarrow> read_dir_entries buf num_entries;
                         Some (Inr (), psb, parent_dir\<lparr>dir_entries := Live es\<rparr>) })"

text \<open>
  The entries, loaded when the pointer is NULL; a failure to load goes unnoticed by all callers, which
  then follow the pointer.  (With blocks of fewer than 68 bytes there is no entry and no access; the
  operations below count this as a fault too.)
\<close>

definition ensure_dir_entries ::
    "('a::type) kenv_scheme \<Rightarrow> u8 list \<Rightarrow> portfs_superblock \<Rightarrow> filetable_entry \<Rightarrow>
     (portfs_superblock \<times> filetable_entry) option" where
  "ensure_dir_entries K st psb dir =
     (if dir_entries dir = Null then map_option snd (portfs_load_dir_data K st psb dir)
      else Some (psb, dir))"

section \<open>The loops over the entries\<close>

text \<open>The first index below \<open>n\<close> whose entry passes a test.\<close>

function find_entry :: "(dir_entry \<Rightarrow> bool option) \<Rightarrow> dir_entry list \<Rightarrow> nat \<Rightarrow> nat \<Rightarrow> nat option option" where
  "find_entry test es n i =
     (if i < n then do {
        e \<leftarrow> array_get es i;
        b \<leftarrow> test e;
        if b then Some (Some i) else find_entry test es n (Suc i) }
      else Some None)"
  by pat_completeness auto
termination
  by (relation "measure (\<lambda>(test, es, n, i). n - i)") auto

declare find_entry.simps [simp del]

text \<open>The entry is stored in the first free slot; without one nothing happens.\<close>

definition add_entry :: "nat \<Rightarrow> dir_entry list \<Rightarrow> u8 list \<Rightarrow> u32 \<Rightarrow> dir_entry list option" where
  "add_entry n es name number = do {
     slot \<leftarrow> find_entry (\<lambda>e. Some (inode_number e = 0)) es n 0;
     (case slot of
        None \<Rightarrow> Some es
      | Some i \<Rightarrow> do {
          copy \<leftarrow> strncpy MAX_NAME_LENGTH name;
          array_set es i \<lparr>de_name = copy, inode_number = number\<rparr> }) }"

definition get_entry :: "nat \<Rightarrow> dir_entry list \<Rightarrow> u8 list \<Rightarrow> dir_entry option option" where
  "get_entry n es name = do {
     slot \<leftarrow> find_entry (\<lambda>e. strcmp_eq (de_name e) name) es n 0;
     (case slot of None \<Rightarrow> Some None | Some i \<Rightarrow> map_option Some (array_get es i)) }"

text \<open>Every entry with the name is cleared.\<close>

function remove_entries :: "nat \<Rightarrow> dir_entry list \<Rightarrow> u8 list \<Rightarrow> nat \<Rightarrow> dir_entry list option" where
  "remove_entries n es name i =
     (if i < n then do {
        e \<leftarrow> array_get es i;
        b \<leftarrow> strcmp_eq (de_name e) name;
        es' \<leftarrow> (if b then array_set es i zero_dir_entry else Some es);
        remove_entries n es' name (Suc i) }
      else Some es)"
  by pat_completeness auto
termination
  by (relation "measure (\<lambda>(n, es, name, i). n - i)") auto

declare remove_entries.simps [simp del]

section \<open>The operations\<close>

definition portfs_is_dir_empty ::
    "('a::type) kenv_scheme \<Rightarrow> u8 list \<Rightarrow> portfs_superblock \<Rightarrow> filetable_entry \<Rightarrow>
     (bool \<times> portfs_superblock \<times> filetable_entry) option" where
  "portfs_is_dir_empty K st psb dir =
     (if get_dir_block dir = 0 then Some (True, psb, dir)
      else do {
        (psb, dir) \<leftarrow> ensure_dir_entries K st psb dir;
        es \<leftarrow> deref (dir_entries dir);
        slot \<leftarrow> find_entry (\<lambda>e. Some (inode_number e \<noteq> 0)) es (get_max_dir_entries psb) 0;
        Some (slot = None, psb, dir) })"

definition portfs_de_add ::
    "('a::type) kenv_scheme \<Rightarrow> u8 list \<Rightarrow> portfs_superblock \<Rightarrow> filetable_entry \<Rightarrow> dir_entry \<Rightarrow>
     ((errno + unit) \<times> portfs_superblock \<times> filetable_entry) option" where
  "portfs_de_add K st psb parent_dir d_entry =
     (if \<not> is_directory parent_dir then Some (Inl ENOTDIR, psb, parent_dir)
      else do {
        (psb, parent_dir) \<leftarrow> ensure_dir_entries K st psb parent_dir;
        es \<leftarrow> deref (dir_entries parent_dir);
        es' \<leftarrow> add_entry (get_max_dir_entries psb) es (de_name d_entry) (inode_number d_entry);
        Some (Inr (), psb, parent_dir\<lparr>dir_entries := Live es'\<rparr>) })"

definition portfs_de_find ::
    "('a::type) kenv_scheme \<Rightarrow> u8 list \<Rightarrow> portfs_superblock \<Rightarrow> filetable_entry \<Rightarrow> u8 list \<Rightarrow>
     ((errno + dir_entry option) \<times> portfs_superblock \<times> filetable_entry) option" where
  "portfs_de_find K st psb parent_dir name =
     (if \<not> is_directory parent_dir then Some (Inl ENOTDIR, psb, parent_dir)
      else do {
        (psb, parent_dir) \<leftarrow> ensure_dir_entries K st psb parent_dir;
        es \<leftarrow> deref (dir_entries parent_dir);
        e \<leftarrow> get_entry (get_max_dir_entries psb) es name;
        Some (Inr e, psb, parent_dir) })"

definition portfs_de_remove ::
    "('a::type) kenv_scheme \<Rightarrow> u8 list \<Rightarrow> portfs_superblock \<Rightarrow> filetable_entry \<Rightarrow> u8 list \<Rightarrow>
     ((errno + unit) \<times> portfs_superblock \<times> filetable_entry) option" where
  "portfs_de_remove K st psb parent_dir name =
     (if \<not> is_directory parent_dir then Some (Inl ENOTDIR, psb, parent_dir)
      else do {
        (psb, parent_dir) \<leftarrow> ensure_dir_entries K st psb parent_dir;
        es \<leftarrow> deref (dir_entries parent_dir);
        es' \<leftarrow> remove_entries (get_max_dir_entries psb) es name 0;
        Some (Inr (), psb, parent_dir\<lparr>dir_entries := Live es'\<rparr>) })"

section \<open>The interface: a table of names\<close>

locale name_table =
  fixes ok :: "'d \<Rightarrow> bool"
    and valid :: "'n \<Rightarrow> bool"
    and number :: "'i \<Rightarrow> bool"
    and room :: "'d \<Rightarrow> bool"
    and names :: "'d \<Rightarrow> 'n \<Rightarrow> 'i option"
    and find :: "'d \<Rightarrow> 'n \<Rightarrow> 'i option option"
    and add :: "'d \<Rightarrow> 'n \<Rightarrow> 'i \<Rightarrow> 'd option"
    and remove :: "'d \<Rightarrow> 'n \<Rightarrow> 'd option"
  assumes find_law: "ok d \<Longrightarrow> valid n \<Longrightarrow> find d n = Some (names d n)"
    and add_law: "ok d \<Longrightarrow> valid n \<Longrightarrow> number i \<Longrightarrow> names d n = None \<Longrightarrow> room d \<Longrightarrow>
      \<exists>d'. add d n i = Some d' \<and> ok d' \<and> names d' = (names d)(n \<mapsto> i)"
    and full_law: "ok d \<Longrightarrow> valid n \<Longrightarrow> \<not> room d \<Longrightarrow> add d n i = Some d"
    and remove_law: "ok d \<Longrightarrow> valid n \<Longrightarrow>
      \<exists>d'. remove d n = Some d' \<and> ok d' \<and> names d' = (names d)(n := None)"
begin

lemma add_find:
  assumes "ok d" "valid n" "number i" "names d n = None" "room d" "valid m"
  shows "do { d' \<leftarrow> add d n i; find d' m } = Some (if m = n then Some i else names d m)"
  using add_law [OF assms(1-5)] find_law assms(6) by fastforce

lemma remove_find:
  assumes "ok d" "valid n" "valid m"
  shows "do { d' \<leftarrow> remove d n; find d' m } = Some (if m = n then None else names d m)"
  using remove_law [OF assms(1,2)] find_law assms(3) by fastforce

lemma add_remove:
  assumes "ok d" "valid n" "number i" "names d n = None" "room d"
  shows "\<exists>d'. do { d1 \<leftarrow> add d n i; remove d1 n } = Some d' \<and> ok d' \<and> names d' = names d"
proof -
  obtain d1 where d1: "add d n i = Some d1" "ok d1" "names d1 = (names d)(n \<mapsto> i)"
    using add_law [OF assms] by blast
  obtain d2 where "remove d1 n = Some d2" "ok d2" "names d2 = (names d1)(n := None)"
    using remove_law [OF d1(2) assms(2)] by blast
  with d1 assms(4) show ?thesis by (intro exI [of _ d2]) auto
qed

end

section \<open>Strings\<close>

definition name_of :: "dir_entry \<Rightarrow> u8 list" where
  "name_of e = takeWhile (\<lambda>c. c \<noteq> 0) (de_name e)"

text \<open>A name with at least one and at most 63 bytes.\<close>

definition valid_name :: "u8 list \<Rightarrow> bool" where
  "valid_name name \<longleftrightarrow> name \<noteq> [] \<and> 0 \<notin> set name \<and> length name < MAX_NAME_LENGTH"

lemma strcmp_eq_terminated:
  "0 \<in> set buf \<Longrightarrow> 0 \<notin> set name \<Longrightarrow> strcmp_eq buf (c_string name) = Some (takeWhile (\<lambda>c. c \<noteq> 0) buf = name)"
proof (induction buf arbitrary: name)
  case (Cons a buf)
  show ?case
  proof (cases name)
    case Nil
    then show ?thesis by (auto simp: c_string_def)
  next
    case (Cons b bs)
    with Cons.IH [of bs] Cons.prems show ?thesis by (auto simp: c_string_def)
  qed
qed simp

lemma strcmp_eq_unterminated:
  "0 \<notin> set buf \<Longrightarrow> 0 \<notin> set name \<Longrightarrow> strcmp_eq buf (c_string (buf @ name)) = None"
  by (induction buf) (auto simp: c_string_def)

lemma takeWhile_terminated: "0 \<notin> set name \<Longrightarrow> takeWhile (\<lambda>c. c \<noteq> 0) (name @ 0 # zs) = (name :: u8 list)"
  by (subst takeWhile_append2) auto

lemma strncpy_name:
  assumes "valid_name name"
  shows "\<exists>zs. strncpy MAX_NAME_LENGTH (c_string name) = Some (name @ 0 # zs) \<and> length (name @ 0 # zs) = MAX_NAME_LENGTH"
proof -
  have "takeWhile (\<lambda>c. c \<noteq> 0) (c_string name) = name"
    using assms takeWhile_terminated [of name "[]"] by (simp add: c_string_def valid_name_def)
  then have "strncpy MAX_NAME_LENGTH (c_string name) = Some (take MAX_NAME_LENGTH (name @ replicate MAX_NAME_LENGTH 0))"
    by (simp add: strncpy_def Let_def c_string_def)
  moreover obtain m where m: "MAX_NAME_LENGTH - length name = Suc m"
    using assms by (metis Suc_diff_Suc valid_name_def)
  then have "take MAX_NAME_LENGTH (name @ replicate MAX_NAME_LENGTH (0 :: u8)) = name @ 0 # replicate m 0"
    using assms by (simp add: valid_name_def min_def) linarith
  moreover have "length (name @ 0 # replicate m 0) = MAX_NAME_LENGTH" using m by simp
  ultimately show ?thesis by metis
qed

section \<open>The array of entries provides the interface\<close>

definition entry_ok :: "dir_entry \<Rightarrow> bool" where
  "entry_ok e \<longleftrightarrow> length (de_name e) = MAX_NAME_LENGTH \<and> 0 \<in> set (de_name e) \<and>
     (inode_number e = 0 \<longleftrightarrow> name_of e = [])"

definition dir_ok :: "nat \<Rightarrow> dir_entry list \<Rightarrow> bool" where
  "dir_ok n es \<longleftrightarrow> length es = n \<and> (\<forall>e \<in> set es. entry_ok e)"

definition dir_map :: "dir_entry list \<Rightarrow> u8 list \<Rightarrow> u32 option" where
  "dir_map es = map_of (map (\<lambda>e. (name_of e, inode_number e)) (filter (\<lambda>e. inode_number e \<noteq> 0) es))"

definition has_room :: "dir_entry list \<Rightarrow> bool" where
  "has_room es \<longleftrightarrow> (\<exists>e \<in> set es. inode_number e = 0)"

lemma find_entry_rule:
  assumes "length es = n" and "\<And>e. e \<in> set es \<Longrightarrow> test e = Some (Q e)" and "i \<le> n"
  shows "(\<exists>j. find_entry test es n i = Some (Some j) \<and> i \<le> j \<and> j < n \<and> Q (es ! j) \<and> (\<forall>k. i \<le> k \<and> k < j \<longrightarrow> \<not> Q (es ! k))) \<or>
    find_entry test es n i = Some None \<and> (\<forall>k. i \<le> k \<and> k < n \<longrightarrow> \<not> Q (es ! k))"
  using assms(3)
proof (induction "n - i" arbitrary: i)
  case 0
  then show ?case by (subst (2) find_entry.simps) auto
next
  case (Suc m)
  then have i: "i < n" by simp
  have test: "array_get es i = Some (es ! i)" "test (es ! i) = Some (Q (es ! i))"
    using i assms(1,2) by (simp_all add: array_simps)
  show ?case
  proof (cases "Q (es ! i)")
    case True
    then have "find_entry test es n i = Some (Some i)" using i test by (subst find_entry.simps) simp
    with True i show ?thesis by (intro disjI1 exI [of _ i]) auto
  next
    case False
    have "find_entry test es n i = find_entry test es n (Suc i)"
      using i test False by (subst find_entry.simps) simp
    moreover have "(\<forall>k. i \<le> k \<and> k < m' \<longrightarrow> \<not> Q (es ! k)) \<longleftrightarrow> (\<forall>k. Suc i \<le> k \<and> k < m' \<longrightarrow> \<not> Q (es ! k))" for m'
      using False by (metis Suc_leD Suc_leI le_neq_implies_less)
    ultimately show ?thesis using Suc.hyps(1) [of "Suc i"] Suc.hyps(2) i by fastforce
  qed
qed

lemma dir_map_nth:
  assumes "dir_ok n es" and "valid_name name"
  shows "j < n \<Longrightarrow> name_of (es ! j) = name \<Longrightarrow> (\<forall>k < j. name_of (es ! k) \<noteq> name) \<Longrightarrow>
      dir_map es name = Some (inode_number (es ! j))"
    and "(\<forall>k < n. name_of (es ! k) \<noteq> name) \<Longrightarrow> dir_map es name = None"
proof -
  have ne: "name \<noteq> []" using assms(2) by (simp add: valid_name_def)
  have "\<forall>e \<in> set es. entry_ok e" "length es = n" using assms(1) by (simp_all add: dir_ok_def)
  then show "j < n \<Longrightarrow> name_of (es ! j) = name \<Longrightarrow> (\<forall>k < j. name_of (es ! k) \<noteq> name) \<Longrightarrow>
      dir_map es name = Some (inode_number (es ! j))"
  proof (induction es arbitrary: j n)
    case (Cons e es)
    show ?case
    proof (cases j)
      case 0
      then show ?thesis using Cons.prems ne by (auto simp: dir_map_def entry_ok_def)
    next
      case (Suc i)
      have "name_of e \<noteq> name" using Cons.prems(3) Suc by auto
      moreover have "\<forall>k < i. name_of (es ! k) \<noteq> name" using Cons.prems(3) Suc by (metis Suc_less_eq nth_Cons_Suc)
      ultimately show ?thesis
        using Cons.IH [where n = "length es" and j = i] Cons.prems Suc by (auto simp: dir_map_def)
    qed
  qed simp
  from \<open>length es = n\<close> show "(\<forall>k < n. name_of (es ! k) \<noteq> name) \<Longrightarrow> dir_map es name = None"
    unfolding dir_map_def map_of_eq_None_iff by (auto simp: in_set_conv_nth)
qed

lemma dir_find:
  assumes "dir_ok n es" and "valid_name name"
  shows "map_option (map_option inode_number) (get_entry n es (c_string name)) = Some (dir_map es name)"
proof -
  have "strcmp_eq (de_name e) (c_string name) = Some (name_of e = name)" if "e \<in> set es" for e
    using that assms strcmp_eq_terminated [of "de_name e" name]
    by (simp add: dir_ok_def entry_ok_def valid_name_def name_of_def)
  then show ?thesis
    using find_entry_rule [of es n "\<lambda>e. strcmp_eq (de_name e) (c_string name)" "\<lambda>e. name_of e = name" 0]
      dir_map_nth [OF assms] assms(1) by (auto simp: get_entry_def dir_ok_def array_simps)
qed

lemma find_free_slot:
  assumes "length es = n"
  shows "if has_room es
    then \<exists>j. find_entry (\<lambda>e. Some (inode_number e = 0)) es n 0 = Some (Some j) \<and> j < n \<and> inode_number (es ! j) = 0
    else find_entry (\<lambda>e. Some (inode_number e = 0)) es n 0 = Some None"
  using find_entry_rule [of es n "\<lambda>e. Some (inode_number e = 0)" "\<lambda>e. inode_number e = 0" 0] assms
  by (fastforce simp: has_room_def in_set_conv_nth)

lemma map_of_insert:
  "map_of (xs @ ys) k = None \<Longrightarrow> map_of (xs @ (k, v) # ys) = (map_of (xs @ ys))(k \<mapsto> v)"
  by (rule ext) (auto simp: map_add_def split: option.splits)

lemma dir_add:
  assumes "dir_ok n es" and "valid_name name" and "number \<noteq> 0" and "dir_map es name = None" and "has_room es"
  shows "\<exists>es'. add_entry n es (c_string name) number = Some es' \<and> dir_ok n es' \<and>
    dir_map es' = (dir_map es)(name \<mapsto> number)"
proof -
  have len: "length es = n" using assms(1) by (simp add: dir_ok_def)
  obtain j where j: "find_entry (\<lambda>e. Some (inode_number e = 0)) es n 0 = Some (Some j)" "j < n" "inode_number (es ! j) = 0"
    using find_free_slot [OF len] assms(5) by auto
  obtain zs where zs: "strncpy MAX_NAME_LENGTH (c_string name) = Some (name @ 0 # zs)"
      "length (name @ 0 # zs) = MAX_NAME_LENGTH"
    using strncpy_name [OF assms(2)] by blast
  define e where "e = \<lparr>de_name = name @ 0 # zs, inode_number = number\<rparr>"
  have name: "name_of e = name"
    using assms(2) takeWhile_terminated by (simp add: name_of_def e_def valid_name_def)
  then have e: "entry_ok e" using zs(2) assms(2,3) by (simp add: entry_ok_def e_def valid_name_def)
  have "dir_ok n (es[j := e])"
    using assms(1) e set_update_subset_insert [of es j e] by (auto simp: dir_ok_def)
  moreover have "dir_map (es[j := e]) = (dir_map es)(name \<mapsto> number)"
  proof -
    let ?kv = "\<lambda>xs. map (\<lambda>e. (name_of e, inode_number e)) (filter (\<lambda>e. inode_number e \<noteq> 0) xs)"
    have "?kv es = ?kv (take j es @ es ! j # drop (Suc j) es)" using j(2) len by (simp add: id_take_nth_drop [symmetric])
    then have old: "?kv es = ?kv (take j es) @ ?kv (drop (Suc j) es)" using j(3) by simp
    have new: "?kv (es[j := e]) = ?kv (take j es) @ (name, number) # ?kv (drop (Suc j) es)"
      using j(2) len name assms(3) by (simp add: upd_conv_take_nth_drop e_def)
    show ?thesis using assms(4) unfolding dir_map_def old new by (rule map_of_insert)
  qed
  ultimately show ?thesis
    using j zs(1) len by (intro exI [of _ "es[j := e]"]) (simp add: add_entry_def array_set_in e_def)
qed

lemma dir_full: "length es = n \<Longrightarrow> \<not> has_room es \<Longrightarrow> add_entry n es name number = Some es"
  using find_free_slot [of es n] by (simp add: add_entry_def)

lemma remove_entries_map:
  assumes "length es = n" and "\<forall>e \<in> set es. entry_ok e" and "0 \<notin> set name" and "i \<le> n"
  shows "remove_entries n es (c_string name) i =
    Some (take i es @ map (\<lambda>e. if name_of e = name then zero_dir_entry else e) (drop i es))"
  using assms
proof (induction "n - i" arbitrary: i es)
  case 0
  then show ?case by (subst remove_entries.simps) simp
next
  case (Suc m)
  then have i: "i < n" by simp
  have cmp: "strcmp_eq (de_name (es ! i)) (c_string name) = Some (name_of (es ! i) = name)"
    using strcmp_eq_terminated [of "de_name (es ! i)" name] Suc.prems i
    by (simp add: entry_ok_def name_of_def)
  define es' where "es' = (if name_of (es ! i) = name then es[i := zero_dir_entry] else es)"
  have step: "remove_entries n es (c_string name) i = remove_entries n es' (c_string name) (Suc i)"
    using i Suc.prems(1) cmp by (subst remove_entries.simps) (simp add: es'_def array_simps)
  have "entry_ok zero_dir_entry" by (simp add: entry_ok_def zero_dir_entry_def name_of_def)
  then have ok': "\<forall>e \<in> set es'. entry_ok e"
    using Suc.prems(2) set_update_subset_insert [of es i zero_dir_entry] by (auto simp: es'_def)
  have "remove_entries n es' (c_string name) (Suc i) =
      Some (take (Suc i) es' @ map (\<lambda>e. if name_of e = name then zero_dir_entry else e) (drop (Suc i) es'))"
    using Suc.hyps(2) Suc.prems i ok' by (intro Suc.hyps(1)) (auto simp: es'_def)
  also have "\<dots> = Some (take i es @ map (\<lambda>e. if name_of e = name then zero_dir_entry else e) (drop i es))"
    using i Suc.prems(1) by (auto simp: es'_def take_Suc_conv_app_nth nth_append
        Cons_nth_drop_Suc [of i es, symmetric])
  finally show ?case using step by simp
qed

lemma dir_remove:
  assumes "dir_ok n es" and "valid_name name"
  shows "\<exists>es'. remove_entries n es (c_string name) 0 = Some es' \<and> dir_ok n es' \<and>
    dir_map es' = (dir_map es)(name := None)"
proof -
  let ?f = "\<lambda>e. if name_of e = name then zero_dir_entry else e"
  have "remove_entries n es (c_string name) 0 = Some (map ?f es)"
    using remove_entries_map [of es n name 0] assms by (simp add: dir_ok_def valid_name_def)
  moreover have "dir_ok n (map ?f es)"
    using assms(1) by (auto simp: dir_ok_def entry_ok_def zero_dir_entry_def name_of_def)
  moreover have "dir_map (map ?f es) = (dir_map es)(name := None)"
    unfolding dir_map_def by (induction es) (auto simp: zero_dir_entry_def)
  ultimately show ?thesis by blast
qed

interpretation dir: name_table "dir_ok n" valid_name "\<lambda>number. number \<noteq> 0" has_room dir_map
    "\<lambda>es name. map_option (map_option inode_number) (get_entry n es (c_string name))"
    "\<lambda>es name number. add_entry n es (c_string name) number"
    "\<lambda>es name. remove_entries n es (c_string name) 0" for n
  by unfold_locales (use dir_find dir_add dir_full dir_remove in \<open>auto simp: dir_ok_def\<close>)

section \<open>Directories in memory\<close>

definition loaded_dir :: "portfs_superblock \<Rightarrow> filetable_entry \<Rightarrow> dir_entry list \<Rightarrow> bool" where
  "loaded_dir psb dir es \<longleftrightarrow> is_directory dir \<and> dir_entries dir = Live es \<and>
     dir_ok (get_max_dir_entries psb) es"

lemma de_find_loaded:
  assumes "loaded_dir psb dir es" and "valid_name name"
  shows "\<exists>r. portfs_de_find K st psb dir (c_string name) = Some (Inr r, psb, dir) \<and>
    map_option inode_number r = dir_map es name"
  using dir.find_law [of "get_max_dir_entries psb" es name] assms
  by (auto simp: loaded_dir_def portfs_de_find_def ensure_dir_entries_def)

lemma loaded_dir_update:
  "loaded_dir psb dir es \<Longrightarrow> dir_ok (get_max_dir_entries psb) es' \<Longrightarrow>
   loaded_dir psb (dir\<lparr>dir_entries := Live es'\<rparr>) es'"
  by (simp add: loaded_dir_def is_directory_def)

text \<open>Copying a copied name changes nothing: the callers of \<open>portfs_de_add\<close> copy it once before.\<close>

lemma add_entry_copy:
  assumes "valid_name name" and "strncpy MAX_NAME_LENGTH (c_string name) = Some copy"
  shows "add_entry n es copy number = add_entry n es (c_string name) number"
proof -
  obtain zs where zs: "copy = name @ 0 # zs" "length (name @ 0 # zs) = MAX_NAME_LENGTH"
    using strncpy_name [OF assms(1)] assms(2) by auto
  have "takeWhile (\<lambda>c. c \<noteq> 0) copy = name" "takeWhile (\<lambda>c. c \<noteq> 0) (c_string name) = name"
    using assms(1) takeWhile_terminated [of name zs] takeWhile_terminated [of name "[]"]
    by (simp_all add: zs(1) c_string_def valid_name_def)
  then have "strncpy MAX_NAME_LENGTH copy = strncpy MAX_NAME_LENGTH (c_string name)"
    by (simp add: strncpy_def Let_def zs(1) c_string_def)
  then show ?thesis by (simp only: add_entry_def)
qed

lemma de_add_loaded:
  assumes "loaded_dir psb dir es" and "valid_name name" and "strncpy MAX_NAME_LENGTH (c_string name) = Some copy"
    and "number \<noteq> 0" and "dir_map es name = None" and "has_room es"
  shows "\<exists>es'. portfs_de_add K st psb dir \<lparr>de_name = copy, inode_number = number\<rparr> =
      Some (Inr (), psb, dir\<lparr>dir_entries := Live es'\<rparr>) \<and>
    loaded_dir psb (dir\<lparr>dir_entries := Live es'\<rparr>) es' \<and> dir_map es' = (dir_map es)(name \<mapsto> number)"
proof -
  obtain es' where "add_entry (get_max_dir_entries psb) es (c_string name) number = Some es'"
      "dir_ok (get_max_dir_entries psb) es'" "dir_map es' = (dir_map es)(name \<mapsto> number)"
    using dir.add_law [of "get_max_dir_entries psb" es name number] assms by (auto simp: loaded_dir_def)
  then show ?thesis
    using assms(1) loaded_dir_update [OF assms(1)]
    by (intro exI [of _ es'])
      (simp add: loaded_dir_def portfs_de_add_def ensure_dir_entries_def add_entry_copy [OF assms(2,3)])
qed

lemma de_remove_loaded:
  assumes "loaded_dir psb dir es" and "valid_name name"
  shows "\<exists>es'. portfs_de_remove K st psb dir (c_string name) =
      Some (Inr (), psb, dir\<lparr>dir_entries := Live es'\<rparr>) \<and>
    loaded_dir psb (dir\<lparr>dir_entries := Live es'\<rparr>) es' \<and> dir_map es' = (dir_map es)(name := None)"
proof -
  obtain es' where "remove_entries (get_max_dir_entries psb) es (c_string name) 0 = Some es'"
      "dir_ok (get_max_dir_entries psb) es'" "dir_map es' = (dir_map es)(name := None)"
    using dir.remove_law [of "get_max_dir_entries psb" es name] assms by (auto simp: loaded_dir_def)
  then show ?thesis
    using assms(1) loaded_dir_update [OF assms(1)]
    by (intro exI [of _ es']) (simp add: loaded_dir_def portfs_de_remove_def ensure_dir_entries_def)
qed

section \<open>A concrete directory\<close>

definition sample_dir :: filetable_entry where
  "sample_dir = zero_entry\<lparr>ino := 1, mode := 0x41ED, dir_entries := Live [zero_dir_entry, zero_dir_entry]\<rparr>"

lemma sample_dir_loaded: "loaded_dir (sample_super bm) sample_dir [zero_dir_entry, zero_dir_entry]"
  by (simp add: loaded_dir_def sample_dir_def is_directory_def S_ISDIR_def dir_ok_def entry_ok_def
      zero_dir_entry_def name_of_def get_max_dir_entries_def sample_super_def)

section \<open>Properties\<close>

text \<open>
  C37: Adding an entry to a loaded directory with a free slot is insertion into a map: afterwards the
  new name is found with its inode number and every other name gives what it gave before.
\<close>

theorem de_add_then_find:
  assumes "loaded_dir psb dir es" and "valid_name name" and "strncpy MAX_NAME_LENGTH (c_string name) = Some copy"
    and "number \<noteq> 0" and "dir_map es name = None" and "has_room es"
  shows "\<exists>dir'. portfs_de_add K st psb dir \<lparr>de_name = copy, inode_number = number\<rparr> = Some (Inr (), psb, dir') \<and>
    (\<forall>m. valid_name m \<longrightarrow> (\<exists>r. portfs_de_find K st psb dir' (c_string m) = Some (Inr r, psb, dir') \<and>
       map_option inode_number r = (if m = name then Some number else dir_map es m)))"
  using de_add_loaded [OF assms, of K st] de_find_loaded [of psb, where K = K and st = st] by fastforce

theorem de_add_then_find_witness:
  "\<exists>dir'. portfs_de_add host_env [] (sample_super []) sample_dir
      \<lparr>de_name = [97, 98] @ replicate 62 0, inode_number = 7\<rparr> = Some (Inr (), sample_super [], dir') \<and>
    (\<exists>r. portfs_de_find host_env [] (sample_super []) dir' (c_string [97, 98]) = Some (Inr r, sample_super [], dir') \<and>
       map_option inode_number r = Some 7)"
proof -
  have valid: "valid_name [97, 98]" by (simp add: valid_name_def)
  have "strncpy MAX_NAME_LENGTH (c_string [97, 98]) = Some ([97, 98] @ replicate 62 0)"
    by code_simp
  from de_add_then_find [OF sample_dir_loaded valid this, of 7 host_env "[]" "[]"] valid
  show ?thesis by (fastforce simp: dir_map_def has_room_def zero_dir_entry_def)
qed

text \<open>
  C38: Removing a name from a loaded directory deletes it and nothing else: it is not found any more,
  every other name still gives what it gave, and the freed slots take new entries.
\<close>

theorem de_remove_then_find:
  assumes "loaded_dir psb dir es" and "valid_name name"
  shows "\<exists>dir'. portfs_de_remove K st psb dir (c_string name) = Some (Inr (), psb, dir') \<and>
    (\<forall>m. valid_name m \<longrightarrow> (\<exists>r. portfs_de_find K st psb dir' (c_string m) = Some (Inr r, psb, dir') \<and>
       map_option inode_number r = (if m = name then None else dir_map es m)))"
  using de_remove_loaded [OF assms, of K st] de_find_loaded [of psb, where K = K and st = st] by fastforce

theorem de_remove_then_find_witness:
  "\<exists>dir'. portfs_de_remove host_env [] (sample_super []) sample_dir (c_string [97]) = Some (Inr (), sample_super [], dir') \<and>
    (\<exists>r. portfs_de_find host_env [] (sample_super []) dir' (c_string [97]) = Some (Inr r, sample_super [], dir') \<and>
       map_option inode_number r = None)"
proof -
  have valid: "valid_name [97]" by (simp add: valid_name_def)
  from de_remove_then_find [OF sample_dir_loaded valid, of host_env "[]" "[]"] valid show ?thesis by fastforce
qed

text \<open>
  Adding to a full directory reports success but stores nothing: the directory is unchanged, so
  the file that was created has no name.
\<close>

theorem de_add_to_full_directory:
  assumes "loaded_dir psb dir es" and "\<not> has_room es"
  shows "portfs_de_add K st psb dir d_entry = Some (Inr (), psb, dir)"
proof -
  have "add_entry (get_max_dir_entries psb) es (de_name d_entry) (inode_number d_entry) = Some es"
    using assms by (intro dir_full) (simp_all add: loaded_dir_def dir_ok_def)
  moreover have "dir\<lparr>dir_entries := Live es\<rparr> = dir" using assms(1) by (simp add: loaded_dir_def)
  ultimately show ?thesis
    using assms(1) by (simp add: loaded_dir_def portfs_de_add_def ensure_dir_entries_def)
qed

definition full_dir :: filetable_entry where
  "full_dir = sample_dir\<lparr>dir_entries := Live
     [\<lparr>de_name = [97] @ replicate 63 0, inode_number = 5\<rparr>, \<lparr>de_name = [98] @ replicate 63 0, inode_number = 6\<rparr>]\<rparr>"

theorem de_add_to_full_directory_witness:
  "portfs_de_add host_env [] (sample_super []) full_dir \<lparr>de_name = [99] @ replicate 63 0, inode_number = 7\<rparr> =
   Some (Inr (), sample_super [], full_dir)"
  by (rule de_add_to_full_directory)
    (auto simp: loaded_dir_def full_dir_def sample_dir_def is_directory_def S_ISDIR_def dir_ok_def entry_ok_def
      name_of_def get_max_dir_entries_def sample_super_def has_room_def)

text \<open>A search for a name that fills its buffer runs into the copy of it, which has no terminator.\<close>

lemma find_unterminated:
  assumes "\<forall>e \<in> set es. entry_ok e" and "j < length es" and "length name = MAX_NAME_LENGTH" and "0 \<notin> set name"
    and "i \<le> j"
  shows "find_entry (\<lambda>e. strcmp_eq (de_name e) (c_string name))
    (es[j := \<lparr>de_name = name, inode_number = number\<rparr>]) (length es) i = None"
    (is "find_entry ?test ?es _ _ = None")
  using assms(5)
proof (induction "j - i" arbitrary: i)
  case 0
  have "?test (?es ! j) = None"
    using strcmp_eq_unterminated [of name "[]"] assms(2,4) by simp
  with 0 assms(2) show ?case by (subst find_entry.simps) (simp add: array_get_in)
next
  case (Suc m)
  then have i: "i < j" by simp
  then have e: "?es ! i = es ! i" "entry_ok (es ! i)" using assms(1,2) by simp_all
  then have "?test (?es ! i) = Some (name_of (es ! i) = name)"
    using strcmp_eq_terminated [of "de_name (es ! i)" name] assms(4) by (simp add: entry_ok_def name_of_def)
  moreover have "name_of (es ! i) \<noteq> name"
  proof
    assume "name_of (es ! i) = name"
    then have "takeWhile (\<lambda>c. c \<noteq> 0) (de_name (es ! i)) = de_name (es ! i)"
      using e(2) assms(3) takeWhile_eq_take [of "\<lambda>c. c \<noteq> 0" "de_name (es ! i)"]
      by (simp add: name_of_def entry_ok_def)
    then show False using e(2) by (auto simp: entry_ok_def takeWhile_eq_all_conv)
  qed
  ultimately show ?case
    using Suc i assms(2) by (subst find_entry.simps) (simp add: array_get_in)
qed

text \<open>
  C39: A name of 64 bytes, which \<open>portfs_lookup\<close> admits, is stored without a terminator, and the next
  search for it runs out of the buffer of its entry.
\<close>

theorem name_of_64_bytes_overruns:
  assumes "loaded_dir psb dir es" and "has_room es" and "length name = MAX_NAME_LENGTH" and "0 \<notin> set name"
    and "strncpy MAX_NAME_LENGTH (c_string name) = Some copy"
  shows "\<exists>dir'. portfs_de_add K st psb dir \<lparr>de_name = copy, inode_number = number\<rparr> = Some (Inr (), psb, dir') \<and>
    portfs_de_find K st psb dir' (c_string name) = None"
proof -
  let ?n = "get_max_dir_entries psb"
  have len: "length es = ?n" and ok: "\<forall>e \<in> set es. entry_ok e"
    using assms(1) by (simp_all add: loaded_dir_def dir_ok_def)
  have tw: "takeWhile (\<lambda>c. c \<noteq> 0) (name @ [0]) = name" "takeWhile (\<lambda>c. c \<noteq> 0) name = name"
    using takeWhile_terminated [OF assms(4), of "[]"] assms(4) by (auto simp: takeWhile_eq_all_conv)
  have copy: "strncpy MAX_NAME_LENGTH (c_string name) = Some name" "strncpy MAX_NAME_LENGTH name = Some name"
    unfolding strncpy_def c_string_def Let_def tw using assms(3) by simp_all
  obtain j where j: "find_entry (\<lambda>e. Some (inode_number e = 0)) es ?n 0 = Some (Some j)" "j < ?n"
    using find_free_slot [OF len] assms(2) by auto
  define es' where "es' = es[j := \<lparr>de_name = name, inode_number = number\<rparr>]"
  have add: "add_entry ?n es copy number = Some es'"
    using j len copy assms(5) by (simp add: add_entry_def array_set_in es'_def)
  have "find_entry (\<lambda>e. strcmp_eq (de_name e) (c_string name)) es' ?n 0 = None"
    using find_unterminated [OF ok _ assms(3,4), of j 0 number] j(2) len by (simp add: es'_def)
  with assms(1) add show ?thesis
    by (intro exI [of _ "dir\<lparr>dir_entries := Live es'\<rparr>"])
      (simp add: loaded_dir_def portfs_de_add_def portfs_de_find_def ensure_dir_entries_def
        is_directory_def get_entry_def)
qed

theorem name_of_64_bytes_overruns_witness:
  "\<exists>dir'. portfs_de_add host_env [] (sample_super []) sample_dir
      \<lparr>de_name = replicate 64 97, inode_number = 7\<rparr> = Some (Inr (), sample_super [], dir') \<and>
    portfs_de_find host_env [] (sample_super []) dir' (c_string (replicate 64 97)) = None"
proof (rule name_of_64_bytes_overruns [OF sample_dir_loaded])
  show "strncpy MAX_NAME_LENGTH (c_string (replicate 64 97)) = Some (replicate 64 97)" by code_simp
qed (simp_all add: has_room_def zero_dir_entry_def)

text \<open>
  Loading a directory that has no block yet cannot report that the storage is full: the error
  number sits in an unsigned integer, whose test for a negative value never holds, so the load
  succeeds without a block and the directory's entries will never be written.
\<close>

theorem load_dir_data_hides_enospc:
  assumes "geometry psb" and "free_blocks psb = {}" and "is_directory dir" and "dir_block (dir_u dir) = 0"
    and "kmalloc_ok K Site_dir_entries"
  shows "portfs_load_dir_data K st psb dir =
    Some (Inr (), psb, dir\<lparr>dir_entries := Live (replicate (get_max_dir_entries psb) zero_dir_entry)\<rparr>)"
proof -
  have "find_free_block psb = Some (-1)" using find_free_block_cases [OF assms(1)] assms(2) by simp
  then show ?thesis
    using assms(3-5)
    by (simp add: portfs_load_dir_data_def portfs_de_alloc_block_def get_dir_block_def is_directory_def Let_def)
qed

theorem load_dir_data_hides_enospc_witness:
  "portfs_load_dir_data host_env [] (sample_super [0xFF]) sample_dir =
    Some (Inr (), sample_super [0xFF], sample_dir\<lparr>dir_entries :=
      Live (replicate (get_max_dir_entries (sample_super [0xFF])) zero_dir_entry)\<rparr>)"
proof (rule load_dir_data_hides_enospc)
  show "free_blocks (sample_super [0xFF]) = {}" by code_simp
qed (simp_all add: geometry_def sample_super_def sample_dir_def is_directory_def S_ISDIR_def zero_entry_def host_env_def)

end
