(* ===== verification/Inode.thy ===== *)
theory Inode
  imports File Directory "HOL-Library.Signed_Division"
begin

text \<open>
  The inode operations: \<open>kernel/inode.c\<close>.  A VFS inode is a \<open>vinode\<close>; its \<open>i_private\<close> points into the
  file table and is an index here.  The calls of the kernel's inode cache are parameters: the number
  \<open>iunique\<close> proposes, what \<open>iget_locked\<close> returns for a number, and the mode \<open>inode_init_owner\<close> sets.
  Times, owners and the dirty flag of an inode are not modelled.
\<close>

section \<open>Inodes and the inode cache\<close>

record vinode =
  i_ino :: u64
  i_mode :: u16
  i_size :: u64
  i_nlink :: nat
  i_private :: "nat option"

text \<open>The outcome of \<open>iget_locked\<close>: NULL, an inode of the cache, or a new one (\<open>I_NEW\<close>).\<close>

datatype iget_result = Iget_null | Iget_cached vinode | Iget_new

record inode_env = kenv +
  iunique :: u64
  iget_locked :: "u64 \<Rightarrow> iget_result"
  init_owner_mode :: "u16 \<Rightarrow> u16"

text \<open>
  Documented behaviour of \<open>inode_init_owner\<close>: it may set the group-id bit but keeps the file type.
\<close>

definition owner_law :: "('a::type) inode_env_scheme \<Rightarrow> bool" where
  "owner_law K \<longleftrightarrow> (\<forall>m. init_owner_mode K m AND S_IFMT = m AND S_IFMT)"

section \<open>The file table\<close>

text \<open>An operation on the entry at an index, through a pointer into the file table.\<close>

definition on_entry ::
    "portfs_superblock \<Rightarrow> nat \<Rightarrow>
     (portfs_superblock \<Rightarrow> filetable_entry \<Rightarrow> ('r \<times> portfs_superblock \<times> filetable_entry) option) \<Rightarrow>
     ('r \<times> portfs_superblock) option" where
  "on_entry psb k operation = do {
     fe \<leftarrow> array_get (filetable psb) k;
     (r, psb', fe') \<leftarrow> operation psb fe;
     ft \<leftarrow> array_set (filetable psb') k fe';
     Some (r, psb'\<lparr>filetable := ft\<rparr>) }"

definition portfs_free_extent :: "portfs_superblock \<Rightarrow> extent \<Rightarrow> (portfs_superblock \<times> extent) option" where
  "portfs_free_extent psb e = do {
     bm \<leftarrow> clear_blocks_allocated (block_bitmap psb) (start_block e) (ext_length e);
     Some (psb\<lparr>block_bitmap := bm\<rparr>, zero_extent) }"

definition portfs_find_free_file_entry :: "portfs_superblock \<Rightarrow> nat option option" where
  "portfs_find_free_file_entry psb =
     map_option (map_option unat)
       (find_u32 0 (max_file_count psb)
          (\<lambda>i. map_option (\<lambda>e. mode e = 0) (array_get (filetable psb) (unat i))))"

text \<open>\<open>Inr None\<close> stands for the result NULL.\<close>

definition portfs_get_inode_by_number ::
    "('a::type) inode_env_scheme \<Rightarrow> portfs_superblock \<Rightarrow> u32 \<Rightarrow> (errno + vinode option) option" where
  "portfs_get_inode_by_number K psb number = do {
     r \<leftarrow> find_u32 0 (max_file_count psb)
            (\<lambda>i. map_option (\<lambda>e. ino e = number) (array_get (filetable psb) (unat i)));
     (case r of
        None \<Rightarrow> Some (Inr None)
      | Some i \<Rightarrow> do {
          fe \<leftarrow> array_get (filetable psb) (unat i);
          (case iget_locked K (ucast (ino fe)) of
             Iget_null \<Rightarrow> Some (Inl ENOENT)
           | Iget_cached inode \<Rightarrow> Some (Inr (Some inode))
           | Iget_new \<Rightarrow>
               Some (Inr (Some \<lparr>i_ino = ucast (ino fe), i_mode = mode fe, i_size = size_in_bytes fe,
                                i_nlink = 1, i_private = Some (unat i)\<rparr>))) }) }"

text \<open>
  \<open>iget_locked\<close> returns NULL on failure, which \<open>IS_ERR\<close> does not catch: the next access faults.
\<close>

definition portfs_make_inode :: "('a::type) inode_env_scheme \<Rightarrow> u16 \<Rightarrow> (errno + vinode) option" where
  "portfs_make_inode K m =
     (case iget_locked K (iunique K) of
        Iget_null \<Rightarrow> None
      | Iget_cached inode \<Rightarrow> Some (Inl EEXIST)
      | Iget_new \<Rightarrow>
          Some (Inr \<lparr>i_ino = iunique K, i_mode = m, i_size = 0, i_nlink = 1, i_private = None\<rparr>))"

section \<open>Creating files and directories\<close>

text \<open>
  \<open>dir\<close> is the inode of the parent; \<open>has_inode\<close> tells whether the directory entry cache already has
  an inode for the name.  The entry of the file table is taken before the name is stored, and stays
  taken when that fails.
\<close>

definition portfs_create ::
    "('a::type) inode_env_scheme \<Rightarrow> u8 list \<Rightarrow> portfs_superblock \<Rightarrow> vinode \<Rightarrow> bool \<Rightarrow> u8 list \<Rightarrow> u16 \<Rightarrow>
     ((errno + vinode) \<times> portfs_superblock) option" where
  "portfs_create K st psb dir has_inode name m =
     (if has_inode then Some (Inl EEXIST, psb)
      else do {
        made \<leftarrow> portfs_make_inode K m;
        (case made of
           Inl e \<Rightarrow> Some (Inl e, psb)
         | Inr inode \<Rightarrow> do {
             slot \<leftarrow> portfs_find_free_file_entry psb;
             (case slot of
                None \<Rightarrow> Some (Inl ENOSPC, psb)
              | Some k \<Rightarrow> do {
                  let inode = inode\<lparr>i_mode := init_owner_mode K m, i_private := Some k\<rparr>;
                  (_, psb) \<leftarrow> on_entry psb k (\<lambda>psb fe. Some ((), psb,
                     fe\<lparr>mode := i_mode inode, ino := ucast (i_ino inode), size_in_bytes := 0\<rparr>));
                  copy \<leftarrow> strncpy MAX_NAME_LENGTH (c_string name);
                  let d_entry = \<lparr>de_name = copy, inode_number = ucast (i_ino inode)\<rparr>;
                  (err, psb) \<leftarrow> (case i_private dir of
                       None \<Rightarrow> Some (Inl EINVAL, psb)
                     | Some p \<Rightarrow> on_entry psb p (\<lambda>psb fe. portfs_de_add K st psb fe d_entry));
                  Some (map_sum id (\<lambda>_. inode) err, psb) }) }) })"

definition portfs_mkdir ::
    "('a::type) inode_env_scheme \<Rightarrow> u8 list \<Rightarrow> portfs_superblock \<Rightarrow> vinode \<Rightarrow> bool \<Rightarrow> u8 list \<Rightarrow> u16 \<Rightarrow>
     ((errno + vinode) \<times> portfs_superblock) option" where
  "portfs_mkdir K st psb dir has_inode name m =
     (if has_inode then Some (Inl EEXIST, psb)
      else do {
        made \<leftarrow> portfs_make_inode K m;
        (case made of
           Inl e \<Rightarrow> Some (Inl e, psb)
         | Inr inode \<Rightarrow> do {
             slot \<leftarrow> portfs_find_free_file_entry psb;
             (case slot of
                None \<Rightarrow> Some (Inl ENOSPC, psb)
              | Some k \<Rightarrow> do {
                  let inode = inode\<lparr>i_nlink := 2, i_mode := init_owner_mode K (S_IFDIR OR m), i_private := Some k\<rparr>;
                  (_, psb) \<leftarrow> on_entry psb k (\<lambda>psb fe. Some ((), psb,
                     fe\<lparr>mode := i_mode inode, ino := ucast (i_ino inode), size_in_bytes := 0,
                        dir_u := (dir_u fe)\<lparr>parent_dir_ino := ucast (i_ino dir)\<rparr>\<rparr>));
                  copy \<leftarrow> strncpy MAX_NAME_LENGTH (c_string name);
                  let d_entry = \<lparr>de_name = copy, inode_number = ucast (i_ino inode)\<rparr>;
                  (err, psb) \<leftarrow> (case i_private dir of
                       None \<Rightarrow> Some (Inl EINVAL, psb)
                     | Some p \<Rightarrow> on_entry psb p (\<lambda>psb fe. portfs_de_add K st psb fe d_entry));
                  Some (map_sum id (\<lambda>_. inode) err, psb) }) }) })"

section \<open>Removing\<close>

text \<open>The removal of the name, whose result both callers ignore.\<close>

definition remove_name ::
    "('a::type) inode_env_scheme \<Rightarrow> u8 list \<Rightarrow> portfs_superblock \<Rightarrow> vinode \<Rightarrow> u8 list \<Rightarrow> portfs_superblock option" where
  "remove_name K st psb dir name =
     (case i_private dir of
        None \<Rightarrow> Some psb
      | Some p \<Rightarrow> map_option snd (on_entry psb p (\<lambda>psb fe. portfs_de_remove K st psb fe (c_string name))))"

text \<open>The result: the return value, the inode, and the superblock.\<close>

definition portfs_rmdir ::
    "('a::type) inode_env_scheme \<Rightarrow> u8 list \<Rightarrow> portfs_superblock \<Rightarrow> vinode \<Rightarrow> vinode \<Rightarrow> u8 list \<Rightarrow>
     ((errno + unit) \<times> vinode \<times> portfs_superblock) option" where
  "portfs_rmdir K st psb parent_dir inode name =
     (if \<not> S_ISDIR (i_mode inode) then Some (Inl ENOTDIR, inode, psb)
      else do {
        k \<leftarrow> i_private inode;
        (empty, psb) \<leftarrow> on_entry psb k (portfs_is_dir_empty K st);
        if \<not> empty then Some (Inl ENOTEMPTY, inode, psb)
        else do {
          dir \<leftarrow> array_get (filetable psb) k;
          bm \<leftarrow> (if dir_block (dir_u dir) \<noteq> 0
                  then clear_block_allocated (block_bitmap psb) (dir_block (dir_u dir))
                  else Some (block_bitmap psb));
          _ \<leftarrow> kfree (dir_entries dir);
          ft \<leftarrow> array_set (filetable psb) k zero_entry;
          psb \<leftarrow> remove_name K st (psb\<lparr>block_bitmap := bm, filetable := ft\<rparr>) parent_dir name;
          Some (Inr (), inode\<lparr>i_private := None, i_nlink := 0\<rparr>, psb) } })"

text \<open>The loop over the extents of the file.\<close>

function unlink_loop :: "filetable_entry \<Rightarrow> nat \<Rightarrow> u8 list \<Rightarrow> u8 list option" where
  "unlink_loop fe i bm =
     (if i < unat (extent_count (file_u fe)) then do {
        ext \<leftarrow> get_extent fe i;
        bm \<leftarrow> clear_blocks_allocated bm (start_block ext) (ext_length ext);
        unlink_loop fe (Suc i) bm }
      else Some bm)"
  by pat_completeness auto
termination
  by (relation "measure (\<lambda>(fe, i, bm). unat (extent_count (file_u fe)) - i)") auto

declare unlink_loop.simps [simp del]

text \<open>\<open>d_inode\<close> is the inode of the name, if the entry cache has one.\<close>

definition portfs_unlink ::
    "('a::type) inode_env_scheme \<Rightarrow> u8 list \<Rightarrow> portfs_superblock \<Rightarrow> vinode \<Rightarrow> vinode option \<Rightarrow> u8 list \<Rightarrow>
     ((errno + unit) \<times> vinode option \<times> portfs_superblock) option" where
  "portfs_unlink K st psb dir d_inode name =
     (case d_inode of
        None \<Rightarrow> Some (Inl ENOENT, None, psb)
      | Some inode \<Rightarrow>
          (case i_private inode of
             None \<Rightarrow> Some (Inl EINVAL, d_inode, psb)
           | Some k \<Rightarrow> do {
               fe \<leftarrow> array_get (filetable psb) k;
               bm \<leftarrow> unlink_loop fe 0 (block_bitmap psb);
               ft \<leftarrow> array_set (filetable psb) k zero_entry;
               psb \<leftarrow> remove_name K st (psb\<lparr>block_bitmap := bm, filetable := ft\<rparr>) dir name;
               Some (Inr (), Some (inode\<lparr>i_private := None, i_nlink := 0\<rparr>), psb) }))"

section \<open>Looking up\<close>

text \<open>
  What becomes of the dentry: an error, the dentry itself (after an error of the search), a negative
  dentry, or the inode spliced in, which can be an error pointer as only NULL is tested.
\<close>

datatype lookup_result =
  Lookup_error errno | Lookup_dentry | Lookup_negative | Lookup_inode "errno + vinode"

definition portfs_lookup ::
    "('a::type) inode_env_scheme \<Rightarrow> u8 list \<Rightarrow> portfs_superblock \<Rightarrow> vinode \<Rightarrow> u8 list \<Rightarrow>
     (lookup_result \<times> portfs_superblock) option" where
  "portfs_lookup K st psb dir name =
     (if name = [] \<or> MAX_NAME_LENGTH < length name then Some (Lookup_error ENAMETOOLONG, psb)
      else do {
        (found, psb) \<leftarrow> (case i_private dir of
             None \<Rightarrow> Some (Inl EINVAL, psb)
           | Some p \<Rightarrow> on_entry psb p (\<lambda>psb fe. portfs_de_find K st psb fe (c_string name)));
        (case found of
           Inl e \<Rightarrow> Some (Lookup_dentry, psb)
         | Inr None \<Rightarrow> Some (Lookup_negative, psb)
         | Inr (Some d_entry) \<Rightarrow> do {
             r \<leftarrow> portfs_get_inode_by_number K psb (inode_number d_entry);
             Some (case r of
                     Inl e \<Rightarrow> Lookup_inode (Inl e)
                   | Inr None \<Rightarrow> Lookup_negative
                   | Inr (Some inode) \<Rightarrow> Lookup_inode (Inr inode), psb) }) })"

section \<open>Changing the size\<close>

text \<open>The loop that empties a file: it takes all extents from the array of the direct ones.\<close>

function free_direct_loop ::
    "portfs_superblock \<Rightarrow> filetable_entry \<Rightarrow> nat \<Rightarrow> (portfs_superblock \<times> filetable_entry) option" where
  "free_direct_loop psb fe i =
     (if i < unat (extent_count (file_u fe)) then do {
        e \<leftarrow> array_get (direct_extents (file_u fe)) i;
        (psb', e') \<leftarrow> portfs_free_extent psb e;
        es \<leftarrow> array_set (direct_extents (file_u fe)) i e';
        free_direct_loop psb' (fe\<lparr>file_u := (file_u fe)\<lparr>direct_extents := es\<rparr>\<rparr>) (Suc i) }
      else Some (psb, fe))"
  by pat_completeness auto
termination
  by (relation "measure (\<lambda>(psb, fe, i). unat (extent_count (file_u fe)) - i)") auto

declare free_direct_loop.simps [simp del]

text \<open>
  The loop that drops the last extents, with the source's step \<open>++i\<close>; \<open>i\<close> never gets negative, and the
  loop ends at the latest with the fault at the end of the array.
\<close>

function truncate_loop ::
    "portfs_superblock \<Rightarrow> filetable_entry \<Rightarrow> nat \<Rightarrow> u64 \<Rightarrow> (u64 \<times> portfs_superblock \<times> filetable_entry) option" where
  "truncate_loop psb fe i blocks_to_remove = do {
     e \<leftarrow> array_get (direct_extents (file_u fe)) i;
     if blocks_to_remove <s ucast (ext_length e) then Some (blocks_to_remove, psb, fe)
     else do {
       (psb', e') \<leftarrow> portfs_free_extent psb e;
       es \<leftarrow> array_set (direct_extents (file_u fe)) i e';
       truncate_loop psb'
         (fe\<lparr>file_u := (file_u fe)\<lparr>direct_extents := es, extent_count := extent_count (file_u fe) - 1\<rparr>\<rparr>)
         (Suc i) (blocks_to_remove - ucast (ext_length e)) } }"
  by pat_completeness auto
termination
  by (relation "measure (\<lambda>(psb, fe, i, n). length (direct_extents (file_u fe)) - i)")
    (auto simp: array_get_def array_set_def split: if_splits)

declare truncate_loop.simps [simp del]

text \<open>
  A number of bytes in blocks, rounded up: \<open>size_in_bytes\<close> is unsigned, \<open>new_size\<close> a signed \<open>loff_t\<close>.
\<close>

definition size_blocks :: "portfs_superblock \<Rightarrow> u64 \<Rightarrow> u64" where
  "size_blocks psb n = (n + ucast (block_size psb) - 1) div ucast (block_size psb)"

definition new_size_blocks :: "portfs_superblock \<Rightarrow> u64 \<Rightarrow> u64" where
  "new_size_blocks psb n = of_int (sint (n + ucast (block_size psb) - 1) sdiv uint (block_size psb))"

text \<open>The results: the return value, the size kept in the inode, the superblock and the entry.\<close>

definition portfs_truncate ::
    "portfs_superblock \<Rightarrow> filetable_entry \<Rightarrow> u64 \<Rightarrow> u64 \<Rightarrow>
     ((errno + unit) \<times> u64 \<times> portfs_superblock \<times> filetable_entry) option" where
  "portfs_truncate psb fe isize new_size =
     (if new_size = 0 then do {
        (psb, fe) \<leftarrow> free_direct_loop psb fe 0;
        Some (Inr (), 0, psb, fe\<lparr>file_u := (file_u fe)\<lparr>extent_count := 0\<rparr>, size_in_bytes := 0\<rparr>) }
      else if block_size psb = 0 then None
      else
        let blocks_to_remove = size_blocks psb (size_in_bytes fe) - new_size_blocks psb new_size
        in if blocks_to_remove = 0 then Some (Inr (), isize, psb, fe)
           else do {
             (blocks_to_remove, psb, fe) \<leftarrow> (if extent_count (file_u fe) = 0 then Some (blocks_to_remove, psb, fe)
                else truncate_loop psb fe (unat (extent_count (file_u fe)) - 1) blocks_to_remove);
             Some (if blocks_to_remove \<noteq> 0 then Inl EIO else Inr (), new_size, psb,
                   fe\<lparr>size_in_bytes := new_size\<rparr>) })"

definition portfs_extend ::
    "('a::type) kenv_scheme \<Rightarrow> u8 list \<Rightarrow> portfs_superblock \<Rightarrow> filetable_entry \<Rightarrow> u64 \<Rightarrow> u64 \<Rightarrow>
     ((errno + unit) \<times> u64 \<times> portfs_superblock \<times> filetable_entry) option" where
  "portfs_extend K st psb fe isize new_size = do {
     let needed_size = new_size - size_in_bytes fe;
     allocated_size \<leftarrow> portfs_get_allocated_size fe (ucast (block_size psb));
     let available_size = allocated_size - size_in_bytes fe;
     if needed_size \<le> available_size then Some (Inr (), new_size, psb, fe\<lparr>size_in_bytes := new_size\<rparr>)
     else do {
       (err, psb, fe) \<leftarrow> portfs_allocate_memory K st psb fe needed_size;
       Some (case err of
               Inl e \<Rightarrow> (Inl e, isize, psb, fe)
             | Inr _ \<Rightarrow> (Inr (), new_size, psb, fe\<lparr>size_in_bytes := new_size\<rparr>)) } }"

text \<open>
  \<open>prepared\<close> is the result of \<open>setattr_prepare\<close>, \<open>attr_size\<close> the new size if \<open>ATTR_SIZE\<close> is set, and
  \<open>setattr_copy\<close> what the kernel's function of this name makes of the inode.
\<close>

definition change_size ::
    "('a::type) kenv_scheme \<Rightarrow> u8 list \<Rightarrow> portfs_superblock \<Rightarrow> vinode \<Rightarrow> u64 \<Rightarrow>
     ((errno + unit) \<times> vinode \<times> portfs_superblock) option" where
  "change_size K st psb inode new_size =
     (if new_size <s i_size inode \<or> i_size inode <s new_size then do {
        k \<leftarrow> i_private inode;
        ((err, isize), psb) \<leftarrow> on_entry psb k (\<lambda>psb fe. do {
           (err, isize, psb, fe) \<leftarrow> (if new_size <s i_size inode
              then portfs_truncate psb fe (i_size inode) new_size
              else portfs_extend K st psb fe (i_size inode) new_size);
           Some ((err, isize), psb, fe) });
        Some (err, inode\<lparr>i_size := isize\<rparr>, psb) }
      else Some (Inr (), inode, psb))"

definition portfs_setattr ::
    "('a::type) kenv_scheme \<Rightarrow> u8 list \<Rightarrow> (errno + unit) \<Rightarrow> (vinode \<Rightarrow> vinode) \<Rightarrow> portfs_superblock \<Rightarrow> vinode \<Rightarrow>
     u64 option \<Rightarrow> ((errno + unit) \<times> vinode \<times> portfs_superblock) option" where
  "portfs_setattr K st prepared setattr_copy psb inode attr_size =
     (case prepared of
        Inl e \<Rightarrow> Some (Inl e, inode, psb)
      | Inr _ \<Rightarrow> do {
          (err, inode, psb) \<leftarrow> (case attr_size of
             None \<Rightarrow> Some (Inr (), inode, psb)
           | Some new_size \<Rightarrow> change_size K st psb inode new_size);
          Some (case err of
                  Inl e \<Rightarrow> (Inl e, inode, psb)
                | Inr _ \<Rightarrow> (Inr (), setattr_copy inode, psb)) })"

end
