(* ===== verification/Inode_Spec.thy ===== *)
theory Inode_Spec
  imports Inode
begin

text \<open>
  What the inode operations do: removing a file gives back its blocks and its name, a created file
  is found under its name, an extension keeps the contents, and the truncation that does not work.
\<close>

section \<open>The file table\<close>

lemma on_entry_run:
  assumes "k < length (filetable psb)" and "operation psb (filetable psb ! k) = Some (r, psb', fe')"
    and "filetable psb' = filetable psb"
  shows "on_entry psb k operation = Some (r, psb'\<lparr>filetable := (filetable psb)[k := fe']\<rparr>)"
  using assms by (simp add: on_entry_def array_simps)

lemma seg_table [simp]: "seg (psb\<lparr>filetable := ft\<rparr>) = seg psb"
  by (rule ext) (simp add: seg_def)

lemma table_irrelevant [simp]:
  "geometry (psb\<lparr>filetable := ft\<rparr>) = geometry psb"
  "used_blocks (psb\<lparr>filetable := ft\<rparr>) = used_blocks psb"
  "free_blocks (psb\<lparr>filetable := ft\<rparr>) = free_blocks psb"
  "wf_file (psb\<lparr>filetable := ft\<rparr>) fe = wf_file psb fe"
  "addrs (psb\<lparr>filetable := ft\<rparr>) fe = addrs psb fe"
  "contents st (psb\<lparr>filetable := ft\<rparr>) fe = contents st psb fe"
  "get_max_dir_entries (psb\<lparr>filetable := ft\<rparr>) = get_max_dir_entries psb"
  "loaded_dir (psb\<lparr>filetable := ft\<rparr>) dir es = loaded_dir psb dir es"
  by (simp_all add: geometry_def used_blocks_def free_blocks_def wf_file_def entry_shape_def extents_ok_def
      addrs_def contents_def get_max_dir_entries_def loaded_dir_def cong: ptr.case_cong)

lemma bitmap_irrelevant [simp]:
  "get_max_dir_entries (psb\<lparr>block_bitmap := bm\<rparr>) = get_max_dir_entries psb"
  "loaded_dir (psb\<lparr>block_bitmap := bm\<rparr>) dir es = loaded_dir psb dir es"
  by (simp_all add: get_max_dir_entries_def loaded_dir_def)

section \<open>Giving blocks back\<close>

lemma clear_extent_bits:
  assumes "geometry psb" and "length bm = length (block_bitmap psb)"
    and "unat (start_block e) + unat (ext_length e) \<le> unat (total_blocks psb)"
  shows "\<exists>bm'. clear_blocks_allocated bm (start_block e) (ext_length e) = Some bm' \<and>
    length bm' = length bm \<and> bits_of bm' = bits_of bm - ext_blocks e"
proof -
  have "unat (start_block e) + unat (ext_length e) < 2 ^ 32"
    using assms(3) by (auto intro: le_less_trans [OF _ unat_u32_lt])
  then show ?thesis
    using clear_blocks_allocated_bits [of "start_block e" "ext_length e" bm] assms
    by (simp add: geometry_def ext_blocks_def)
qed

text \<open>The blocks of a list of extents; a file's are those of its extents.\<close>

definition extents_blocks :: "extent list \<Rightarrow> nat set" where
  "extents_blocks es = (\<Union>e \<in> set es. ext_blocks e)"

lemma extents_blocks_simps [simp]:
  "extents_blocks [] = {}"
  "extents_blocks (e # es) = ext_blocks e \<union> extents_blocks es"
  by (simp_all add: extents_blocks_def)

lemma file_blocks_extents: "file_blocks fe = extents_blocks (file_extents fe)"
  by (simp add: file_blocks_def extents_blocks_def)

lemma file_extent_in_storage:
  "wf_file psb fe \<Longrightarrow> i < unat (extent_count (file_u fe)) \<Longrightarrow>
   unat (start_block (file_extents fe ! i)) + unat (ext_length (file_extents fe ! i)) \<le> unat (total_blocks psb)"
  using nth_mem [of i "file_extents fe"] length_file_extents [of psb fe]
  by (auto simp: wf_file_def extents_ok_def)

lemma unlink_loop_frees:
  assumes "wf_file psb fe" and "geometry psb" and "length bm = length (block_bitmap psb)"
  shows "\<exists>bm'. unlink_loop fe i bm = Some bm' \<and> length bm' = length bm \<and>
    bits_of bm' = bits_of bm - extents_blocks (drop i (file_extents fe))"
  using assms(3)
proof (induction "unat (extent_count (file_u fe)) - i" arbitrary: i bm)
  case 0
  then show ?case by (subst unlink_loop.simps) (simp add: length_file_extents [OF assms(1)])
next
  case (Suc n)
  let ?e = "file_extents fe ! i"
  have i: "i < unat (extent_count (file_u fe))" using Suc.hyps(2) by simp
  obtain bm1 where bm1: "clear_blocks_allocated bm (start_block ?e) (ext_length ?e) = Some bm1"
      "length bm1 = length bm" "bits_of bm1 = bits_of bm - ext_blocks ?e"
    using clear_extent_bits [OF assms(2) Suc.prems file_extent_in_storage [OF assms(1) i]] by blast
  obtain bm2 where bm2: "unlink_loop fe (Suc i) bm1 = Some bm2" "length bm2 = length bm1"
      "bits_of bm2 = bits_of bm1 - extents_blocks (drop (Suc i) (file_extents fe))"
    using Suc.hyps(1) [of "Suc i" bm1] Suc.hyps(2) Suc.prems bm1(2) by (metis diff_Suc_1 diff_Suc_eq_diff_pred diff_commute)
  have "drop i (file_extents fe) = ?e # drop (Suc i) (file_extents fe)"
    using i by (simp add: Cons_nth_drop_Suc length_file_extents [OF assms(1)])
  then show ?case
    using i bm1 bm2 get_extent_file [OF assms(1) i]
    by (subst unlink_loop.simps) (auto simp: Diff_eq)
qed

text \<open>A file without common blocks stays well formed when blocks are given back.\<close>

lemma wf_file_freed:
  assumes "wf_file psb fe" and "file_blocks fe \<inter> B = {}" and "bits_of bm = bits_of (block_bitmap psb) - B"
  shows "wf_file (psb\<lparr>block_bitmap := bm\<rparr>) fe"
  using assms by (fastforce simp: wf_file_def extents_ok_def used_blocks_def file_blocks_def)

lemma remove_name_run:
  assumes "i_private dir = Some p" and "p < length (filetable psb)" and "loaded_dir psb (filetable psb ! p) es"
    and "valid_name name"
  shows "\<exists>es'. remove_name K st psb dir name = Some (psb\<lparr>filetable := (filetable psb)
      [p := (filetable psb ! p)\<lparr>dir_entries := Live es'\<rparr>]\<rparr>) \<and>
    loaded_dir psb ((filetable psb ! p)\<lparr>dir_entries := Live es'\<rparr>) es' \<and>
    dir_map es' = (dir_map es)(name := None)"
proof -
  obtain es' where es': "portfs_de_remove K st psb (filetable psb ! p) (c_string name) =
      Some (Inr (), psb, (filetable psb ! p)\<lparr>dir_entries := Live es'\<rparr>)"
      "loaded_dir psb ((filetable psb ! p)\<lparr>dir_entries := Live es'\<rparr>) es'"
      "dir_map es' = (dir_map es)(name := None)"
    using de_remove_loaded [OF assms(3,4)] by blast
  then show ?thesis
    using on_entry_run [OF assms(2), of "\<lambda>psb fe. portfs_de_remove K st psb fe (c_string name)", OF es'(1)] assms(1)
    by (auto simp: remove_name_def)
qed

lemma unlink_run:
  assumes "geometry psb" and "i_private inode = Some k" and "k < length (filetable psb)"
    and "wf_file psb (filetable psb ! k)" and "i_private dir = Some p" and "p < length (filetable psb)" and "p \<noteq> k"
    and "loaded_dir psb (filetable psb ! p) es" and "valid_name name"
  shows "\<exists>es' bm. portfs_unlink K st psb dir (Some inode) name =
      Some (Inr (), Some (inode\<lparr>i_private := None, i_nlink := 0\<rparr>), psb\<lparr>block_bitmap := bm,
        filetable := (filetable psb)[k := zero_entry, p := (filetable psb ! p)\<lparr>dir_entries := Live es'\<rparr>]\<rparr>) \<and>
    length bm = length (block_bitmap psb) \<and> bits_of bm = bits_of (block_bitmap psb) - file_blocks (filetable psb ! k) \<and>
    loaded_dir psb ((filetable psb ! p)\<lparr>dir_entries := Live es'\<rparr>) es' \<and> dir_map es' = (dir_map es)(name := None)"
proof -
  obtain bm where bm: "unlink_loop (filetable psb ! k) 0 (block_bitmap psb) = Some bm"
      "length bm = length (block_bitmap psb)"
      "bits_of bm = bits_of (block_bitmap psb) - file_blocks (filetable psb ! k)"
    using unlink_loop_frees [OF assms(4,1), of "block_bitmap psb" 0] by (auto simp: file_blocks_extents)
  let ?psb = "psb\<lparr>block_bitmap := bm, filetable := (filetable psb)[k := zero_entry]\<rparr>"
  obtain es' where "remove_name K st ?psb dir name = Some (?psb\<lparr>filetable := (filetable ?psb)
      [p := (filetable ?psb ! p)\<lparr>dir_entries := Live es'\<rparr>]\<rparr>)"
      "loaded_dir ?psb ((filetable ?psb ! p)\<lparr>dir_entries := Live es'\<rparr>) es'" "dir_map es' = (dir_map es)(name := None)"
    using remove_name_run [of dir p ?psb es name K st] assms by auto
  with bm assms(2,3,7) show ?thesis
    by (intro exI [of _ es'] exI [of _ bm]) (simp add: portfs_unlink_def array_simps)
qed

section \<open>Creating and looking up\<close>

text \<open>The table in memory has \<open>max_file_count\<close> entries; an entry is free when its mode is 0.\<close>

definition table_ok :: "portfs_superblock \<Rightarrow> bool" where
  "table_ok psb \<longleftrightarrow> length (filetable psb) = unat (max_file_count psb)"

lemma find_free_file_entry_least:
  assumes "table_ok psb"
  shows "portfs_find_free_file_entry psb =
    Some (if \<exists>n < length (filetable psb). mode (filetable psb ! n) = 0
          then Some (LEAST n. mode (filetable psb ! n) = 0) else None)"
proof -
  let ?Q = "\<lambda>n. mode (filetable psb ! n) = 0"
  have "(LEAST n. ?Q n) < 2 ^ 32" if "n < length (filetable psb)" "?Q n" for n
    using Least_le [of ?Q n] that assms unat_u32_lt [of "max_file_count psb"] by (simp add: table_ok_def del: unat_u32_lt)
  then show ?thesis
    using find_u32_rule [of 0 "max_file_count psb"
        "\<lambda>i. map_option (\<lambda>e. mode e = 0) (array_get (filetable psb) (unat i))" ?Q] assms
    by (auto simp: portfs_find_free_file_entry_def array_get_in table_ok_def word_less_nat_alt unat_of_nat)
qed

lemma find_free_file_entry_Some:
  assumes "table_ok psb" and "portfs_find_free_file_entry psb = Some (Some k)"
  shows "k < length (filetable psb) \<and> mode (filetable psb ! k) = 0"
proof -
  from assms obtain n where n: "n < length (filetable psb)" "mode (filetable psb ! n) = 0"
    and k: "k = (LEAST n. mode (filetable psb ! n) = 0)"
    by (auto simp: find_free_file_entry_least split: if_splits)
  with Least_le [of "\<lambda>n. mode (filetable psb ! n) = 0" n] LeastI [of "\<lambda>n. mode (filetable psb ! n) = 0" n]
  show ?thesis by simp
qed

lemma add_name_run:
  assumes "i_private dir = Some p" and "p < length (filetable psb)" and "loaded_dir psb (filetable psb ! p) es"
    and "valid_name name" and "strncpy MAX_NAME_LENGTH (c_string name) = Some copy" and "number \<noteq> 0"
    and "dir_map es name = None" and "has_room es"
  shows "\<exists>es'. (case i_private dir of None \<Rightarrow> Some (Inl EINVAL, psb)
      | Some p \<Rightarrow> on_entry psb p (\<lambda>psb fe. portfs_de_add K st psb fe \<lparr>de_name = copy, inode_number = number\<rparr>)) =
      Some (Inr (), psb\<lparr>filetable := (filetable psb)[p := (filetable psb ! p)\<lparr>dir_entries := Live es'\<rparr>]\<rparr>) \<and>
    loaded_dir psb ((filetable psb ! p)\<lparr>dir_entries := Live es'\<rparr>) es' \<and>
    dir_map es' = (dir_map es)(name \<mapsto> number)"
proof -
  obtain es' where es': "portfs_de_add K st psb (filetable psb ! p) \<lparr>de_name = copy, inode_number = number\<rparr> =
      Some (Inr (), psb, (filetable psb ! p)\<lparr>dir_entries := Live es'\<rparr>)"
      "loaded_dir psb ((filetable psb ! p)\<lparr>dir_entries := Live es'\<rparr>) es'"
      "dir_map es' = (dir_map es)(name \<mapsto> number)"
    using de_add_loaded [OF assms(3-8)] by blast
  then show ?thesis
    using on_entry_run [OF assms(2), of "\<lambda>psb fe. portfs_de_add K st psb fe
        \<lparr>de_name = copy, inode_number = number\<rparr>", OF es'(1)] assms(1) by auto
qed

text \<open>
  When a file or a directory can be created: the inode number is new, the table has a free entry \<open>k\<close>,
  the parent is loaded with a free slot, and the name is new.
\<close>

definition can_create ::
    "('a::type) inode_env_scheme \<Rightarrow> portfs_superblock \<Rightarrow> vinode \<Rightarrow> nat \<Rightarrow> nat \<Rightarrow> dir_entry list \<Rightarrow> u8 list \<Rightarrow> bool" where
  "can_create K psb dir k p es name \<longleftrightarrow>
     iget_locked K (iunique K) = Iget_new \<and> (ucast (iunique K) :: u32) \<noteq> 0 \<and>
     table_ok psb \<and> portfs_find_free_file_entry psb = Some (Some k) \<and>
     i_private dir = Some p \<and> p < length (filetable psb) \<and> loaded_dir psb (filetable psb ! p) es \<and>
     valid_name name \<and> dir_map es name = None \<and> has_room es"

lemma can_create_index:
  assumes "can_create K psb dir k p es name"
  shows "k < length (filetable psb) \<and> mode (filetable psb ! k) = 0 \<and> p \<noteq> k"
proof -
  have k: "k < length (filetable psb)" "mode (filetable psb ! k) = 0"
    using assms find_free_file_entry_Some by (auto simp: can_create_def)
  moreover have "mode (filetable psb ! p) \<noteq> 0"
    using assms by (auto simp: can_create_def loaded_dir_def is_directory_def S_ISDIR_def)
  ultimately show ?thesis by auto
qed

lemma create_run:
  assumes "can_create K psb dir k p es name"
  shows "\<exists>es'. portfs_create K st psb dir False name m =
      Some (Inr \<lparr>i_ino = iunique K, i_mode = init_owner_mode K m, i_size = 0, i_nlink = 1, i_private = Some k\<rparr>,
        psb\<lparr>filetable := (filetable psb)
          [k := (filetable psb ! k)\<lparr>mode := init_owner_mode K m, ino := ucast (iunique K), size_in_bytes := 0\<rparr>,
           p := (filetable psb ! p)\<lparr>dir_entries := Live es'\<rparr>]\<rparr>) \<and>
    loaded_dir psb ((filetable psb ! p)\<lparr>dir_entries := Live es'\<rparr>) es' \<and>
    dir_map es' = (dir_map es)(name \<mapsto> ucast (iunique K))"
proof -
  note can = assms [unfolded can_create_def] and ix = can_create_index [OF assms]
  let ?fe = "(filetable psb ! k)\<lparr>mode := init_owner_mode K m, ino := ucast (iunique K), size_in_bytes := 0\<rparr>"
  let ?psb = "psb\<lparr>filetable := (filetable psb)[k := ?fe]\<rparr>"
  obtain zs where copy: "strncpy MAX_NAME_LENGTH (c_string name) = Some (name @ 0 # zs)"
    using strncpy_name can by blast
  obtain es' where "(case i_private dir of None \<Rightarrow> Some (Inl EINVAL, ?psb)
      | Some p \<Rightarrow> on_entry ?psb p (\<lambda>psb fe. portfs_de_add K st psb fe
          \<lparr>de_name = name @ 0 # zs, inode_number = ucast (iunique K)\<rparr>)) =
      Some (Inr (), ?psb\<lparr>filetable := (filetable ?psb)[p := (filetable ?psb ! p)\<lparr>dir_entries := Live es'\<rparr>]\<rparr>)"
      "loaded_dir ?psb ((filetable ?psb ! p)\<lparr>dir_entries := Live es'\<rparr>) es'"
      "dir_map es' = (dir_map es)(name \<mapsto> ucast (iunique K))"
    using add_name_run [of dir p ?psb es name "name @ 0 # zs" "ucast (iunique K)" K st] can ix copy by auto
  moreover have "on_entry psb k (\<lambda>psb fe. Some ((), psb,
      fe\<lparr>mode := init_owner_mode K m, ino := ucast (iunique K), size_in_bytes := 0\<rparr>)) = Some ((), ?psb)"
    using ix by (simp add: on_entry_def array_simps)
  ultimately show ?thesis
    using can ix copy
    by (intro exI [of _ es']) (simp add: portfs_create_def portfs_make_inode_def)
qed

text \<open>The inode that is built from an entry of the table.\<close>

definition inode_of :: "portfs_superblock \<Rightarrow> nat \<Rightarrow> vinode" where
  "inode_of psb k = \<lparr>i_ino = ucast (ino (filetable psb ! k)), i_mode = mode (filetable psb ! k),
     i_size = size_in_bytes (filetable psb ! k), i_nlink = 1, i_private = Some k\<rparr>"

fun cached_or :: "iget_result \<Rightarrow> vinode \<Rightarrow> errno + vinode" where
  "cached_or Iget_null inode = Inl ENOENT"
| "cached_or (Iget_cached cached) inode = Inr cached"
| "cached_or Iget_new inode = Inr inode"

lemma get_inode_by_number_run:
  assumes "table_ok psb" and "k < length (filetable psb)" and "ino (filetable psb ! k) = number"
    and "\<forall>j < k. ino (filetable psb ! j) \<noteq> number"
  shows "portfs_get_inode_by_number K psb number =
    Some (map_sum id Some (cached_or (iget_locked K (ucast number)) (inode_of psb k)))"
proof -
  let ?Q = "\<lambda>n. ino (filetable psb ! n) = number"
  have k: "(LEAST n. ?Q n) = k"
    by (rule Least_equality) (use assms(3,4) not_less in auto)
  have "k < 2 ^ 32"
    using assms(1,2) unat_u32_lt [of "max_file_count psb"] by (simp add: table_ok_def del: unat_u32_lt)
  then have "find_u32 0 (max_file_count psb)
      (\<lambda>i. map_option (\<lambda>e. ino e = number) (array_get (filetable psb) (unat i))) = Some (Some (of_nat k)) \<and>
      unat (of_nat k :: u32) = k"
    using find_u32_rule [of 0 "max_file_count psb"
        "\<lambda>i. map_option (\<lambda>e. ino e = number) (array_get (filetable psb) (unat i))" ?Q] assms(1-3) k
    by (auto simp: array_get_in table_ok_def word_less_nat_alt unat_of_nat)
  then show ?thesis
    using assms(2,3)
    by (cases "iget_locked K (ucast number)") (simp_all add: portfs_get_inode_by_number_def array_simps inode_of_def)
qed

lemma lookup_run:
  assumes "table_ok psb" and "i_private dir = Some p" and "p < length (filetable psb)"
    and "loaded_dir psb (filetable psb ! p) es" and "valid_name name" and "dir_map es name = Some number"
    and "k < length (filetable psb)" and "ino (filetable psb ! k) = number"
    and "\<forall>j < k. ino (filetable psb ! j) \<noteq> number"
  shows "portfs_lookup K st psb dir name =
    Some (Lookup_inode (cached_or (iget_locked K (ucast number)) (inode_of psb k)), psb)"
proof -
  obtain e where e: "portfs_de_find K st psb (filetable psb ! p) (c_string name) =
      Some (Inr (Some e), psb, filetable psb ! p)" "inode_number e = number"
    using de_find_loaded [OF assms(4,5), of K st] assms(6) by auto
  have "on_entry psb p (\<lambda>psb fe. portfs_de_find K st psb fe (c_string name)) = Some (Inr (Some e), psb)"
    using on_entry_run [OF assms(3), of "\<lambda>psb fe. portfs_de_find K st psb fe (c_string name)", OF e(1)] by simp
  then show ?thesis
    using get_inode_by_number_run [OF assms(1,7-9), of K] assms(2,5) e(2)
    by (cases "iget_locked K (ucast number)") (auto simp: portfs_lookup_def valid_name_def)
qed

section \<open>Changing sizes\<close>

lemma free_extent_run:
  assumes "geometry psb" and "unat (start_block e) + unat (ext_length e) \<le> unat (total_blocks psb)"
  shows "\<exists>bm. portfs_free_extent psb e = Some (psb\<lparr>block_bitmap := bm\<rparr>, zero_extent) \<and>
    length bm = length (block_bitmap psb) \<and> bits_of bm = bits_of (block_bitmap psb) - ext_blocks e"
  using clear_extent_bits [OF assms(1) refl assms(2)] by (auto simp: portfs_free_extent_def)

text \<open>Emptying: all extents from index \<open>i\<close> on, in the direct array.\<close>

lemma free_direct_loop_run:
  assumes "geometry psb" and "unat (extent_count (file_u fe)) \<le> length (direct_extents (file_u fe))"
    and "\<forall>e \<in> set (take (unat (extent_count (file_u fe))) (direct_extents (file_u fe))).
      unat (start_block e) + unat (ext_length e) \<le> unat (total_blocks psb)"
  shows "\<exists>bm es. free_direct_loop psb fe i =
      Some (psb\<lparr>block_bitmap := bm\<rparr>, fe\<lparr>file_u := (file_u fe)\<lparr>direct_extents := es\<rparr>\<rparr>) \<and>
    length bm = length (block_bitmap psb) \<and> length es = length (direct_extents (file_u fe)) \<and>
    bits_of bm = bits_of (block_bitmap psb) -
      extents_blocks (drop i (take (unat (extent_count (file_u fe))) (direct_extents (file_u fe))))"
  using assms
proof (induction "unat (extent_count (file_u fe)) - i" arbitrary: i psb fe)
  case 0
  then show ?case
    by (intro exI [of _ "block_bitmap psb"] exI [of _ "direct_extents (file_u fe)"])
      (subst free_direct_loop.simps, simp)
next
  case (Suc n)
  let ?c = "unat (extent_count (file_u fe))" and ?es = "direct_extents (file_u fe)"
  let ?e = "?es ! i" and ?fe = "fe\<lparr>file_u := (file_u fe)\<lparr>direct_extents := ?es[i := zero_extent]\<rparr>\<rparr>"
  have i: "i < ?c" "i < length ?es" using Suc.hyps(2) Suc.prems(2) by simp_all
  have "?e \<in> set (take ?c ?es)" using i by (auto simp: in_set_conv_nth)
  then obtain bm1 where bm1: "portfs_free_extent psb ?e = Some (psb\<lparr>block_bitmap := bm1\<rparr>, zero_extent)"
      "length bm1 = length (block_bitmap psb)" "bits_of bm1 = bits_of (block_bitmap psb) - ext_blocks ?e"
    using free_extent_run [OF Suc.prems(1)] Suc.prems(3) by blast
  let ?psb = "psb\<lparr>block_bitmap := bm1\<rparr>"
  have "\<forall>e \<in> set (take ?c (?es[i := zero_extent])). unat (start_block e) + unat (ext_length e) \<le> unat (total_blocks psb)"
    using Suc.prems(3) set_update_subset_insert [of "take ?c ?es" i zero_extent]
    by (auto simp: take_update_swap zero_extent_def)
  moreover have "n = ?c - Suc i" using Suc.hyps(2) by simp
  ultimately obtain bm2 es2 where bm2: "free_direct_loop ?psb ?fe (Suc i) =
      Some (?psb\<lparr>block_bitmap := bm2\<rparr>, ?fe\<lparr>file_u := (file_u ?fe)\<lparr>direct_extents := es2\<rparr>\<rparr>)"
      "length bm2 = length bm1" "length es2 = length ?es"
      "bits_of bm2 = bits_of bm1 - extents_blocks (drop (Suc i) (take ?c (?es[i := zero_extent])))"
    using Suc.hyps(1) [of ?fe "Suc i" ?psb] Suc.prems(1,2) geometry_bitmap [OF bm1(2)] by auto
  have "drop (Suc i) (take ?c (?es[i := zero_extent])) = drop (Suc i) (take ?c ?es)"
    by (simp add: take_update_swap drop_update_cancel)
  moreover have "drop i (take ?c ?es) = ?e # drop (Suc i) (take ?c ?es)"
    using i Cons_nth_drop_Suc [of i "take ?c ?es"] by simp
  ultimately show ?case
    using i bm1 bm2 by (subst free_direct_loop.simps) (auto simp: array_simps Diff_eq)
qed

lemma sdiv_int_nat: "int a sdiv int b = int (a div b)"
  by (cases "a = 0"; cases "b = 0") (simp_all add: signed_divide_int_def zdiv_int)

lemma unat_size_blocks:
  assumes "0 < block_size psb" and "unat n + unat (block_size psb) < 2 ^ 63"
  shows "unat (size_blocks psb n) = (unat n + unat (block_size psb) - 1) div unat (block_size psb)"
proof -
  have b: "0 < unat (block_size psb)" using assms(1) by (simp add: word_less_nat_alt)
  have s: "unat (n + ucast (block_size psb)) = unat n + unat (block_size psb)"
    using assms(2) by (subst unat_add_no_wrap) simp_all
  then have "unat (n + ucast (block_size psb) - 1) = unat n + unat (block_size psb) - 1"
    using b by (subst unat_sub_no_wrap) (simp_all add: word_le_nat_alt)
  then show ?thesis by (simp add: size_blocks_def unat_div)
qed

lemma new_size_blocks_small:
  assumes "0 < block_size psb" and "unat n + unat (block_size psb) < 2 ^ 63"
  shows "new_size_blocks psb n = size_blocks psb n"
proof -
  have b: "0 < unat (block_size psb)" using assms(1) by (simp add: word_less_nat_alt)
  let ?x = "n + ucast (block_size psb) - 1"
  have s: "unat (n + ucast (block_size psb)) = unat n + unat (block_size psb)"
    using assms(2) by (subst unat_add_no_wrap) simp_all
  then have "unat ?x = unat n + unat (block_size psb) - 1"
    using b by (subst unat_sub_no_wrap) (simp_all add: word_le_nat_alt)
  then have "sint ?x = int (unat ?x)" using assms(2) by (intro sint_small) simp
  then have "sint ?x sdiv uint (block_size psb) = int (unat ?x div unat (block_size psb))"
    by (simp only: uint_nat sdiv_int_nat)
  moreover have "unat ?x div unat (block_size psb) < 2 ^ 64"
    by (rule le_less_trans [OF div_le_dividend]) (use unat_bound [of ?x] in simp)
  then have "?x div ucast (block_size psb) = of_nat (unat ?x div unat (block_size psb))"
    by (simp add: word_unat_eq_iff unat_of_nat_small unat_div)
  ultimately show ?thesis by (simp add: size_blocks_def new_size_blocks_def)
qed

text \<open>Emptying a file.\<close>

lemma direct_file_extents:
  "wf_file psb fe \<Longrightarrow> unat (extent_count (file_u fe)) \<le> DIRECT_EXTENTS \<Longrightarrow>
   file_extents fe = take (unat (extent_count (file_u fe))) (direct_extents (file_u fe))"
  by (simp add: wf_file_def entry_shape_def file_extents_def slots_def)

lemma truncate_to_zero_run:
  assumes "geometry psb" and "wf_file psb fe" and "unat (extent_count (file_u fe)) \<le> DIRECT_EXTENTS"
  shows "\<exists>bm es. portfs_truncate psb fe isize 0 = Some (Inr (), 0, psb\<lparr>block_bitmap := bm\<rparr>,
      fe\<lparr>file_u := (file_u fe)\<lparr>direct_extents := es, extent_count := 0\<rparr>, size_in_bytes := 0\<rparr>) \<and>
    length bm = length (block_bitmap psb) \<and> length es = DIRECT_EXTENTS \<and>
    bits_of bm = bits_of (block_bitmap psb) - file_blocks fe"
proof -
  note ext = direct_file_extents [OF assms(2,3)]
  have len: "length (direct_extents (file_u fe)) = DIRECT_EXTENTS"
    using assms(2) by (simp add: wf_file_def entry_shape_def)
  have "\<forall>e \<in> set (file_extents fe). unat (start_block e) + unat (ext_length e) \<le> unat (total_blocks psb)"
    using assms(2) by (simp add: wf_file_def extents_ok_def)
  then obtain bm es where "free_direct_loop psb fe 0 =
      Some (psb\<lparr>block_bitmap := bm\<rparr>, fe\<lparr>file_u := (file_u fe)\<lparr>direct_extents := es\<rparr>\<rparr>)"
      "length bm = length (block_bitmap psb)" "length es = length (direct_extents (file_u fe))"
      "bits_of bm = bits_of (block_bitmap psb) - file_blocks fe"
    using free_direct_loop_run [OF assms(1), of fe 0] assms(3) len by (auto simp: ext file_blocks_extents)
  then show ?thesis by (intro exI [of _ bm] exI [of _ es]) (simp add: portfs_truncate_def len)
qed

lemma free_direct_loop_overrun:
  assumes "length (direct_extents (file_u fe)) = DIRECT_EXTENTS" and "DIRECT_EXTENTS < unat (extent_count (file_u fe))"
    and "i \<le> DIRECT_EXTENTS"
  shows "free_direct_loop psb fe i = None"
  using assms
proof (induction "DIRECT_EXTENTS - i" arbitrary: i psb fe)
  case 0
  then show ?case by (subst free_direct_loop.simps) (simp add: array_get_def)
next
  case (Suc n)
  have n: "n = DIRECT_EXTENTS - Suc i" "Suc i \<le> DIRECT_EXTENTS" using Suc.hyps(2) by simp_all
  show ?case
  proof (cases "portfs_free_extent psb (direct_extents (file_u fe) ! i)")
    case None
    then show ?thesis using Suc.prems n by (subst free_direct_loop.simps) (simp add: array_simps)
  next
    case (Some z)
    obtain psb' e' where "z = (psb', e')" by (cases z)
    with Some show ?thesis
      using Suc.hyps(1) [OF n(1), of "fe\<lparr>file_u := (file_u fe)\<lparr>direct_extents :=
          (direct_extents (file_u fe))[i := e']\<rparr>\<rparr>" psb'] Suc.prems n
      by (subst free_direct_loop.simps) (simp add: array_simps)
  qed
qed

text \<open>Past the last extent the loop meets empty slots until it leaves the array.\<close>

lemma truncate_loop_overrun:
  assumes "length (direct_extents (file_u fe)) = DIRECT_EXTENTS" and "i \<le> DIRECT_EXTENTS"
    and "\<forall>j. i \<le> j \<and> j < DIRECT_EXTENTS \<longrightarrow> direct_extents (file_u fe) ! j = zero_extent" and "unat n < 2 ^ 63"
  shows "truncate_loop psb fe i n = None"
  using assms
proof (induction "DIRECT_EXTENTS - i" arbitrary: i psb fe)
  case 0
  then show ?case by (subst truncate_loop.simps) (simp add: array_get_def)
next
  case (Suc k)
  have i: "k = DIRECT_EXTENTS - Suc i" "Suc i \<le> DIRECT_EXTENTS" "i < DIRECT_EXTENTS" using Suc.hyps(2) by simp_all
  have e: "array_get (direct_extents (file_u fe)) i = Some zero_extent"
    using Suc.prems(1,3) i by (simp add: array_get_in)
  have n: "\<not> n <s ucast (ext_length zero_extent)"
    using not_negative [OF Suc.prems(4)] by (simp add: zero_extent_def)
  show ?case
  proof (cases "portfs_free_extent psb zero_extent")
    case None
    then show ?thesis using e n by (subst truncate_loop.simps) simp
  next
    case (Some z)
    obtain psb' e' where z: "z = (psb', e')" by (cases z)
    have "truncate_loop psb' (fe\<lparr>file_u := (file_u fe)\<lparr>direct_extents := (direct_extents (file_u fe))[i := e'],
        extent_count := extent_count (file_u fe) - 1\<rparr>\<rparr>) (Suc i) n = None"
      by (rule Suc.hyps(1) [OF i(1)]) (use Suc.prems i in auto)
    with Some z e n show ?thesis
      using Suc.prems(1) i by (subst truncate_loop.simps) (simp add: array_simps zero_extent_def)
  qed
qed

text \<open>The number of blocks that a truncation is to give back.\<close>

definition blocks_between :: "portfs_superblock \<Rightarrow> u64 \<Rightarrow> u64 \<Rightarrow> nat" where
  "blocks_between psb m n = (unat n + unat (block_size psb) - 1) div unat (block_size psb) -
     (unat m + unat (block_size psb) - 1) div unat (block_size psb)"

lemma blocks_to_remove:
  assumes "0 < block_size psb" and "m \<le> n" and "unat n + unat (block_size psb) < 2 ^ 63"
  shows "unat (size_blocks psb n - new_size_blocks psb m) = blocks_between psb m n"
    and "blocks_between psb m n < 2 ^ 63"
proof -
  let ?b = "unat (block_size psb)"
  have m: "unat m \<le> unat n" using assms(2) by (simp add: word_le_nat_alt)
  then have le: "(unat m + ?b - 1) div ?b \<le> (unat n + ?b - 1) div ?b"
    by (intro div_le_mono) simp
  have sizes: "unat (size_blocks psb n) = (unat n + ?b - 1) div ?b"
    "unat (new_size_blocks psb m) = (unat m + ?b - 1) div ?b"
    using m assms(1,3) by (simp_all add: new_size_blocks_small unat_size_blocks)
  then show "unat (size_blocks psb n - new_size_blocks psb m) = blocks_between psb m n"
    using le by (subst unat_sub_no_wrap) (simp_all add: word_le_nat_alt blocks_between_def)
  have "(unat n + ?b - 1) div ?b \<le> unat n + ?b - 1" by (rule div_le_dividend)
  then show "blocks_between psb m n < 2 ^ 63"
    using assms(3) unfolding blocks_between_def by linarith
qed

text \<open>The loop from the last extent of a file with direct extents only: nothing fits, or it runs off the end.\<close>

lemma truncate_loop_last:
  assumes "geometry psb" and "wf_file psb fe" and "0 < extent_count (file_u fe)"
    and "unat (extent_count (file_u fe)) \<le> DIRECT_EXTENTS"
    and "set (drop (unat (extent_count (file_u fe))) (direct_extents (file_u fe))) \<subseteq> {zero_extent}"
    and "unat n < 2 ^ 63"
  shows "truncate_loop psb fe (unat (extent_count (file_u fe)) - 1) n =
    (if unat n < unat (ext_length (last (file_extents fe))) then Some (n, psb, fe) else None)"
proof -
  let ?c = "unat (extent_count (file_u fe))" and ?des = "direct_extents (file_u fe)" and ?e = "last (file_extents fe)"
  have len: "length ?des = DIRECT_EXTENTS" using assms(2) by (simp add: wf_file_def entry_shape_def)
  have c: "0 < ?c" using assms(3) by (simp add: word_less_nat_alt)
  have last: "?e = ?des ! (?c - 1)"
    using c assms(4) len unfolding direct_file_extents [OF assms(2,4)] by (subst last_conv_nth) auto
  have "?e \<in> set (file_extents fe)" using c length_file_extents [OF assms(2)] by (intro last_in_set) auto
  then have e: "unat (start_block ?e) + unat (ext_length ?e) \<le> unat (total_blocks psb)"
    using assms(2) by (auto simp: wf_file_def extents_ok_def)
  have slots: "?des ! j = zero_extent" if "?c \<le> j" "j < DIRECT_EXTENTS" for j
  proof -
    have "?des ! j = drop ?c ?des ! (j - ?c)" "j - ?c < length (drop ?c ?des)"
      using that len by (simp_all add: diff_less_mono)
    then have "?des ! j \<in> set (drop ?c ?des)" by (metis nth_mem)
    with assms(5) show ?thesis by fast
  qed
  have "unat (ext_length ?e) < 2 ^ 63" using less_trans [OF unat_u32_lt] by simp
  then have cmp: "n <s ucast (ext_length ?e) \<longleftrightarrow> unat n < unat (ext_length ?e)"
    using assms(6) by (simp only: sless_small unat_ucast_u32_u64 word_less_nat_alt)
  obtain bm where bm: "portfs_free_extent psb ?e = Some (psb\<lparr>block_bitmap := bm\<rparr>, zero_extent)"
    using free_extent_run [OF assms(1) e] by blast
  show ?thesis
  proof (cases "unat n < unat (ext_length ?e)")
    case True
    then show ?thesis
      using cmp c assms(4) len last by (subst truncate_loop.simps) (simp add: array_get_in)
  next
    case False
    let ?fe = "fe\<lparr>file_u := (file_u fe)\<lparr>direct_extents := ?des[?c - 1 := zero_extent],
        extent_count := extent_count (file_u fe) - 1\<rparr>\<rparr>"
    have "unat (n - ucast (ext_length ?e)) < 2 ^ 63"
      using False assms(6) by (subst unat_sub_no_wrap) (simp_all add: word_le_nat_alt)
    then have "truncate_loop (psb\<lparr>block_bitmap := bm\<rparr>) ?fe ?c (n - ucast (ext_length ?e)) = None"
      by (intro truncate_loop_overrun) (use len assms(4) slots c in auto)
    with False cmp c assms(4) len last bm show ?thesis
      by (subst truncate_loop.simps) (simp add: array_simps)
  qed
qed

lemma no_indirect_alloc_size [simp]:
  "no_indirect_alloc fe (fe'\<lparr>size_in_bytes := n\<rparr>) = no_indirect_alloc fe fe'"
  by (simp add: no_indirect_alloc_def)

text \<open>The contents at a bigger size begin with those at the old one.\<close>

lemma contents_grown:
  assumes "addrs psb' fe' = addrs psb fe @ new" and "size_in_bytes fe \<le> size_in_bytes fe'"
    and "unat (size_in_bytes fe) \<le> length (addrs psb fe)"
  shows "take (unat (size_in_bytes fe)) (contents st psb' fe') = contents st psb fe"
  using assms by (simp add: contents_def take_map min_absorb1 word_le_nat_alt)

lemma extend_run:
  assumes "wf_super psb" and "file_ok psb fe" and "kernel_ok K"
    and "portfs_extend K st psb fe isize new_size = Some (Inr (), isize', psb', fe')"
    and "no_indirect_alloc fe fe'" and "size_in_bytes fe < new_size" and "unat new_size + unat (block_size psb) < 2 ^ 50"
  shows "isize' = new_size \<and> size_in_bytes fe' = new_size \<and> mode fe' = mode fe \<and> file_ok psb' fe' \<and>
    take (unat (size_in_bytes fe)) (contents st psb' fe') = contents st psb fe \<and>
    (\<exists>bm. psb' = psb\<lparr>block_bitmap := bm\<rparr> \<and> length bm = length (block_bitmap psb)) \<and>
    file_blocks fe \<subseteq> file_blocks fe' \<and> file_blocks fe' - file_blocks fe \<subseteq> free_blocks psb \<and>
    used_blocks psb' = used_blocks psb \<union> file_blocks fe'"
proof -
  have wf: "wf_file psb fe" and size: "unat (size_in_bytes fe) \<le> length (addrs psb fe)"
    using assms(2) by (simp_all add: file_ok_def)
  obtain a where a: "portfs_get_allocated_size fe (ucast (block_size psb)) = Some a"
      "unat (a - size_in_bytes fe) = length (addrs psb fe) - unat (size_in_bytes fe)"
    using available_size [OF assms(2)] by blast
  have le: "size_in_bytes fe \<le> new_size" using assms(6) by simp
  have need: "unat (new_size - size_in_bytes fe) = unat new_size - unat (size_in_bytes fe)"
    by (rule unat_sub_no_wrap [OF le])
  show ?thesis
  proof (cases "new_size - size_in_bytes fe \<le> a - size_in_bytes fe")
    case True
    then have res: "isize' = new_size" "psb' = psb" "fe' = fe\<lparr>size_in_bytes := new_size\<rparr>"
      using assms(4) a(1) by (auto simp: portfs_extend_def)
    have "unat new_size \<le> length (addrs psb fe)"
      using True a(2) need size le by (simp add: word_le_nat_alt)
    with res wf le file_blocks_used [OF wf] size show ?thesis
      using contents_grown [of psb fe' psb fe "[]" st]
      by (auto simp: file_ok_def intro: exI [of _ "block_bitmap psb"])
  next
    case False
    from False obtain fe1 where alloc: "portfs_allocate_memory K st psb fe (new_size - size_in_bytes fe) =
        Some (Inr (), psb', fe1)" and res: "isize' = new_size" "fe' = fe1\<lparr>size_in_bytes := new_size\<rparr>"
      using assms(4) a(1) by (auto simp: portfs_extend_def split: bind_splits sum.splits)
    have pos: "0 < new_size - size_in_bytes fe" using False by (auto simp: word_gt_0)
    have small: "unat (new_size - size_in_bytes fe) + unat (block_size psb) < 2 ^ 50"
      using need assms(7) by simp
    have quiet: "no_indirect_alloc fe fe1" using assms(5) res(2) by simp
    note spec = allocated_for_write [OF assms(1-3) pos alloc quiet small]
    then obtain new where new: "addrs psb' fe1 = addrs psb fe @ new" by blast
    have "length (addrs psb fe) + (unat new_size - unat (size_in_bytes fe)) \<le> length (addrs psb' fe1)"
      using spec need by simp
    then have "unat new_size \<le> length (addrs psb' fe')"
      using size unfolding res(2) addrs_size by linarith
    with spec res new le size show ?thesis
      using contents_grown [of psb' fe' psb fe new st] by (simp add: file_ok_def)
  qed
qed

section \<open>Concrete file systems\<close>

text \<open>A root directory in entry 0 and, in the second, a file of two extents with its name.\<close>

definition empty_fs :: portfs_superblock where
  "empty_fs = (sample_super [0xFF])\<lparr>filetable := [sample_dir, zero_entry]\<rparr>"

definition named_fs :: portfs_superblock where
  "named_fs = (sample_super [0xFF])\<lparr>filetable :=
     [sample_dir\<lparr>dir_entries := Live [\<lparr>de_name = [97] @ replicate 63 0, inode_number = 7\<rparr>, zero_dir_entry]\<rparr>,
      sample_file 200 [(3, 1), (5, 2)]]\<rparr>"

definition root_inode :: vinode where
  "root_inode = \<lparr>i_ino = 1, i_mode = 0x41ED, i_size = 0, i_nlink = 2, i_private = Some 0\<rparr>"

definition inode_host :: inode_env where
  "inode_host = kenv.extend host_env (inode_env.fields 7 (\<lambda>n. Iget_new) (\<lambda>m. m))"

lemma wf_sample_two: "wf_file (sample_super [0xFF]) (sample_file 200 [(3, 1), (5, 2)])"
  unfolding wf_file_def
proof (intro conjI)
  show "entry_shape (sample_super [0xFF]) (sample_file 200 [(3, 1), (5, 2)])"
    by (simp add: entry_shape_def sample_file_def zero_entry_def)
  show "unat (extent_count (file_u (sample_file 200 [(3, 1), (5, 2)]))) \<le> length (slots (sample_file 200 [(3, 1), (5, 2)]))"
    by (simp add: sample_file_def zero_entry_def slots_def)
  show "extents_ok (sample_super [0xFF]) (file_extents (sample_file 200 [(3, 1), (5, 2)]))"
    by code_simp
qed

lemma wf_sample_any: "wf_file (sample_super [0xFF]) (sample_file n [(3, 1), (5, 2)])"
proof -
  have "sample_file n [(3, 1), (5, 2)] = (sample_file 200 [(3, 1), (5, 2)])\<lparr>size_in_bytes := n\<rparr>"
    by (simp add: sample_file_def)
  then show ?thesis using wf_sample_two by simp
qed

lemma geometry_sample: "geometry (sample_super [0xFF])"
  by (simp add: geometry_def sample_super_def)

section \<open>Properties\<close>

text \<open>
  C8: Unlinking a file gives back exactly the blocks of its extents, clears its entry of the file table
  and removes its name and no other; every other file keeps its well-formedness and, as the storage is
  not touched, its contents.  The block of the file's indirect extents is not given back.
\<close>

theorem unlink_frees_the_file:
  assumes "geometry psb" and "i_private inode = Some k" and "k < length (filetable psb)"
    and "wf_file psb (filetable psb ! k)" and "i_private dir = Some p" and "p < length (filetable psb)" and "p \<noteq> k"
    and "loaded_dir psb (filetable psb ! p) es" and "valid_name name"
  shows "\<exists>inode' psb' es'. portfs_unlink K st psb dir (Some inode) name = Some (Inr (), Some inode', psb') \<and>
    i_nlink inode' = 0 \<and> used_blocks psb' = used_blocks psb - file_blocks (filetable psb ! k) \<and>
    filetable psb' ! k = zero_entry \<and> (\<forall>j. j \<noteq> k \<and> j \<noteq> p \<longrightarrow> filetable psb' ! j = filetable psb ! j) \<and>
    loaded_dir psb' (filetable psb' ! p) es' \<and> dir_map es' = (dir_map es)(name := None) \<and>
    (\<forall>fe. wf_file psb fe \<and> file_blocks fe \<inter> file_blocks (filetable psb ! k) = {} \<longrightarrow>
       wf_file psb' fe \<and> contents st psb' fe = contents st psb fe)"
proof -
  obtain es' bm where run: "portfs_unlink K st psb dir (Some inode) name =
      Some (Inr (), Some (inode\<lparr>i_private := None, i_nlink := 0\<rparr>), psb\<lparr>block_bitmap := bm,
        filetable := (filetable psb)[k := zero_entry, p := (filetable psb ! p)\<lparr>dir_entries := Live es'\<rparr>]\<rparr>)"
    and bm: "length bm = length (block_bitmap psb)"
      "bits_of bm = bits_of (block_bitmap psb) - file_blocks (filetable psb ! k)"
    and dir: "loaded_dir psb ((filetable psb ! p)\<lparr>dir_entries := Live es'\<rparr>) es'"
      "dir_map es' = (dir_map es)(name := None)"
    using unlink_run [OF assms] by blast
  have others: "wf_file (psb\<lparr>block_bitmap := bm\<rparr>) fe"
    if "wf_file psb fe" "file_blocks fe \<inter> file_blocks (filetable psb ! k) = {}" for fe
    by (rule wf_file_freed [OF that bm(2)])
  show ?thesis
    by (rule exI, rule exI, rule exI [of _ es'], rule conjI, rule run)
      (use assms(3,6,7) bm dir others in \<open>simp add: used_blocks_def contents_def\<close>)
qed

lemma named_fs_facts:
  "geometry named_fs" "wf_file named_fs (filetable named_fs ! 1)"
  "loaded_dir named_fs (filetable named_fs ! 0) [\<lparr>de_name = [97] @ replicate 63 0, inode_number = 7\<rparr>, zero_dir_entry]"
  by (simp_all add: named_fs_def geometry_sample wf_sample_two)
    (auto simp: loaded_dir_def sample_dir_def is_directory_def S_ISDIR_def dir_ok_def entry_ok_def
      zero_dir_entry_def name_of_def get_max_dir_entries_def sample_super_def)

theorem unlink_frees_the_file_witness:
  "\<exists>inode' psb'. portfs_unlink inode_host [] named_fs root_inode (Some (root_inode\<lparr>i_private := Some 1\<rparr>)) [97] =
      Some (Inr (), Some inode', psb') \<and> used_blocks psb' = used_blocks named_fs - {3, 5, 6}"
proof -
  have "file_blocks (filetable named_fs ! 1) = {3, 5, 6}" by code_simp
  moreover have "valid_name [97]" "length (filetable named_fs) = 2" by (simp_all add: valid_name_def named_fs_def)
  ultimately show ?thesis
    using unlink_frees_the_file [OF named_fs_facts(1), of "root_inode\<lparr>i_private := Some 1\<rparr>" 1 root_inode 0
        "[\<lparr>de_name = [97] @ replicate 63 0, inode_number = 7\<rparr>, zero_dir_entry]" "[97]" inode_host "[]"] named_fs_facts
    by (auto simp: root_inode_def)
qed

text \<open>
  C9: Creating a file and looking its name up gives the inode that was created: from the inode cache
  while it is there, rebuilt from the file table with the same fields when it is not.  The other
  entries of the table do not change.
\<close>

theorem create_then_lookup:
  assumes "can_create K psb dir k p es name" and "unat (iunique K) < 2 ^ 32"
    and "\<forall>j < length (filetable psb). ino (filetable psb ! j) \<noteq> ucast (iunique K)"
  shows "\<exists>inode psb'. portfs_create K st psb dir False name m = Some (Inr inode, psb') \<and>
    i_mode inode = init_owner_mode K m \<and> i_size inode = 0 \<and> i_private inode = Some k \<and>
    (\<forall>j. j \<noteq> k \<and> j \<noteq> p \<longrightarrow> filetable psb' ! j = filetable psb ! j) \<and>
    (\<forall>K' st'. portfs_lookup (K' :: inode_env) st' psb' dir name =
       Some (Lookup_inode (cached_or (iget_locked K' (i_ino inode)) inode), psb'))"
proof -
  let ?inode = "\<lparr>i_ino = iunique K, i_mode = init_owner_mode K m, i_size = 0, i_nlink = 1, i_private = Some k\<rparr>"
  note can = assms(1) [unfolded can_create_def] and ix = can_create_index [OF assms(1)]
  obtain es' where run: "portfs_create K st psb dir False name m = Some (Inr ?inode,
        psb\<lparr>filetable := (filetable psb)
          [k := (filetable psb ! k)\<lparr>mode := init_owner_mode K m, ino := ucast (iunique K), size_in_bytes := 0\<rparr>,
           p := (filetable psb ! p)\<lparr>dir_entries := Live es'\<rparr>]\<rparr>)"
      (is "_ = Some (_, ?psb)")
    and dir: "loaded_dir psb ((filetable psb ! p)\<lparr>dir_entries := Live es'\<rparr>) es'"
      "dir_map es' = (dir_map es)(name \<mapsto> ucast (iunique K))"
    using create_run [OF assms(1)] by blast
  have number: "ucast (ucast (iunique K) :: u32) = iunique K"
    using assms(2) by (simp add: word_unat_eq_iff unsigned_ucast_eq unsigned_take_bit_eq take_bit_nat_eq_self)
  have entry: "ino (filetable ?psb ! k) = ucast (iunique K)" and inode: "inode_of ?psb k = ?inode"
    using ix number by (simp_all add: inode_of_def)
  have others: "\<forall>j < k. ino (filetable ?psb ! j) \<noteq> ucast (iunique K)"
    using assms(3) ix can by (auto simp: nth_list_update)
  have "portfs_lookup K' st' ?psb dir name =
      Some (Lookup_inode (cached_or (iget_locked K' (iunique K)) ?inode), ?psb)" for K' :: inode_env and st'
    using lookup_run [of ?psb dir p es' name "ucast (iunique K)" k K' st'] entry others inode dir can ix number
    by (simp add: table_ok_def)
  with run ix show ?thesis by (intro exI [of _ ?inode] exI [of _ ?psb]) simp
qed

theorem create_then_lookup_witness:
  "\<exists>inode psb'. portfs_create inode_host [] empty_fs root_inode False [98] 0x81A4 = Some (Inr inode, psb') \<and>
    portfs_lookup inode_host [] psb' root_inode [98] = Some (Lookup_inode (Inr inode), psb')"
proof -
  have "portfs_find_free_file_entry empty_fs = Some (Some 1)" by code_simp
  moreover have "loaded_dir empty_fs sample_dir [zero_dir_entry, zero_dir_entry]"
    by (simp add: empty_fs_def sample_dir_loaded)
  moreover have "filetable empty_fs = [sample_dir, zero_entry]" "max_file_count empty_fs = 2"
    by (simp_all add: empty_fs_def sample_super_def)
  ultimately have "can_create inode_host empty_fs root_inode 1 0 [zero_dir_entry, zero_dir_entry] [98]"
    by (simp add: can_create_def table_ok_def inode_host_def root_inode_def valid_name_def
        dir_map_def has_room_def zero_dir_entry_def kenv.defs inode_env.defs)
  moreover have "unat (iunique inode_host) < 2 ^ 32"
    "\<forall>j < length (filetable empty_fs). ino (filetable empty_fs ! j) \<noteq> ucast (iunique inode_host)"
    by (simp_all add: inode_host_def empty_fs_def sample_dir_def zero_entry_def kenv.defs inode_env.defs less_Suc_eq)
  ultimately obtain inode psb' where
      "portfs_create inode_host [] empty_fs root_inode False [98] 0x81A4 = Some (Inr inode, psb')"
      "\<forall>K' st'. portfs_lookup (K' :: inode_env) st' psb' root_inode [98] =
        Some (Lookup_inode (cached_or (iget_locked K' (i_ino inode)) inode), psb')"
    using create_then_lookup [of inode_host empty_fs root_inode 1 0 "[zero_dir_entry, zero_dir_entry]" "[98]" "[]" "0x81A4"]
    by blast
  moreover have "iget_locked inode_host = (\<lambda>n. Iget_new)"
    by (simp add: inode_host_def kenv.defs inode_env.defs)
  ultimately show ?thesis by auto
qed

text \<open>
  C10: Truncating a file of at most four extents to size 0 gives back exactly its blocks and leaves a
  well formed empty file; with more extents the code reads beyond the array of the direct ones.
\<close>

theorem truncate_to_zero:
  assumes "geometry psb" and "wf_file psb fe"
  shows "if unat (extent_count (file_u fe)) \<le> DIRECT_EXTENTS
    then \<exists>psb' fe'. portfs_truncate psb fe isize 0 = Some (Inr (), 0, psb', fe') \<and>
      used_blocks psb' = used_blocks psb - file_blocks fe \<and>
      wf_file psb' fe' \<and> file_extents fe' = [] \<and> size_in_bytes fe' = 0
    else portfs_truncate psb fe isize 0 = None"
proof (cases "unat (extent_count (file_u fe)) \<le> DIRECT_EXTENTS")
  case True
  obtain bm es where run: "portfs_truncate psb fe isize 0 = Some (Inr (), 0, psb\<lparr>block_bitmap := bm\<rparr>,
      fe\<lparr>file_u := (file_u fe)\<lparr>direct_extents := es, extent_count := 0\<rparr>, size_in_bytes := 0\<rparr>)"
      "length es = DIRECT_EXTENTS" "bits_of bm = bits_of (block_bitmap psb) - file_blocks fe"
    using truncate_to_zero_run [OF assms True] by blast
  moreover have "wf_file (psb\<lparr>block_bitmap := bm\<rparr>)
      (fe\<lparr>file_u := (file_u fe)\<lparr>direct_extents := es, extent_count := 0\<rparr>, size_in_bytes := 0\<rparr>)"
    using assms(2) run(2)
    by (simp add: wf_file_def entry_shape_def extents_ok_def file_extents_def cong: ptr.case_cong)
  ultimately show ?thesis using True by (simp add: used_blocks_def file_extents_def)
next
  case False
  then show ?thesis
    using free_direct_loop_overrun [of fe 0 psb] assms(2)
    by (simp add: portfs_truncate_def wf_file_def entry_shape_def)
qed

theorem truncate_to_zero_witness:
  "\<exists>psb' fe'. portfs_truncate (sample_super [0xFF]) (sample_file 200 [(3, 1), (5, 2)]) 200 0 = Some (Inr (), 0, psb', fe') \<and>
    used_blocks psb' = used_blocks (sample_super [0xFF]) - file_blocks (sample_file 200 [(3, 1), (5, 2)])"
  using truncate_to_zero [OF geometry_sample wf_sample_two, of 200] by (simp add: sample_file_def) blast

text \<open>
  C11: No truncation to a smaller positive size works.  Within the last block it reports success and
  leaves the size; if it would free part of the last extent it sets the new size, frees nothing and
  returns \<open>EIO\<close>; if it would free the whole last extent, the loop, which counts up instead of down,
  runs off the end of the array.
\<close>

theorem truncate_never_shrinks:
  assumes "wf_super psb" and "wf_file psb fe" and "0 < extent_count (file_u fe)"
    and "unat (extent_count (file_u fe)) \<le> DIRECT_EXTENTS"
    and "set (drop (unat (extent_count (file_u fe))) (direct_extents (file_u fe))) \<subseteq> {zero_extent}"
    and "0 < new_size" and "new_size \<le> size_in_bytes fe" and "unat (size_in_bytes fe) + unat (block_size psb) < 2 ^ 63"
  shows "portfs_truncate psb fe isize new_size =
    (if blocks_between psb new_size (size_in_bytes fe) = 0 then Some (Inr (), isize, psb, fe)
     else if blocks_between psb new_size (size_in_bytes fe) < unat (ext_length (last (file_extents fe)))
     then Some (Inl EIO, new_size, psb, fe\<lparr>size_in_bytes := new_size\<rparr>)
     else None)"
proof -
  let ?n = "size_blocks psb (size_in_bytes fe) - new_size_blocks psb new_size"
  have g: "geometry psb" and bs: "0 < block_size psb" using assms(1) by (simp_all add: wf_super_def)
  note n = blocks_to_remove [OF bs assms(7,8)]
  have n63: "unat ?n < 2 ^ 63" using n by simp
  note loop = truncate_loop_last [OF g assms(2-5) n63]
  have zero: "?n = 0 \<longleftrightarrow> blocks_between psb new_size (size_in_bytes fe) = 0"
    using n(1) by (metis unat_eq_zero)
  have nz: "new_size \<noteq> 0" "block_size psb \<noteq> 0" "extent_count (file_u fe) \<noteq> 0"
    using assms(3,6) bs by auto
  consider "?n = 0" | "?n \<noteq> 0" "unat ?n < unat (ext_length (last (file_extents fe)))"
    | "?n \<noteq> 0" "\<not> unat ?n < unat (ext_length (last (file_extents fe)))"
    by blast
  then show ?thesis
    by cases (use zero nz loop n(1) in \<open>simp_all add: portfs_truncate_def\<close>)
qed

theorem truncate_never_shrinks_witness:
  "portfs_truncate (sample_super [0xFF]) (sample_file 400 [(3, 1), (5, 2)]) 400 390 =
     Some (Inr (), 400, sample_super [0xFF], sample_file 400 [(3, 1), (5, 2)]) \<and>
   portfs_truncate (sample_super [0xFF]) (sample_file 400 [(3, 1), (5, 2)]) 400 200 =
     Some (Inl EIO, 200, sample_super [0xFF], sample_file 200 [(3, 1), (5, 2)]) \<and>
   portfs_truncate (sample_super [0xFF]) (sample_file 400 [(3, 1), (5, 2)]) 400 100 = None"
proof -
  have wf: "wf_super (sample_super [0xFF])" "wf_file (sample_super [0xFF]) (sample_file 400 [(3, 1), (5, 2)])"
    by (simp_all add: wf_sample_super wf_sample_any)
  have "last (file_extents (sample_file 400 [(3, 1), (5, 2)])) = \<lparr>start_block = 5, ext_length = 2\<rparr>" by code_simp
  then show ?thesis
    using truncate_never_shrinks [OF wf, of 390 400] truncate_never_shrinks [OF wf, of 200 400]
      truncate_never_shrinks [OF wf, of 100 400]
    by (simp add: blocks_between_def sample_file_def zero_entry_def sample_super_def)
qed

text \<open>
  C12: A successful extension sets the new size, keeps the old contents as a prefix, leaves the file well
  formed and covered by its blocks, and takes only free blocks.
\<close>

theorem extend_keeps_contents:
  assumes "wf_super psb" and "file_ok psb fe" and "kernel_ok K"
    and "portfs_extend K st psb fe isize new_size = Some (Inr (), isize', psb', fe')"
    and "no_indirect_alloc fe fe'" and "size_in_bytes fe < new_size" and "unat new_size + unat (block_size psb) < 2 ^ 50"
  shows "isize' = new_size \<and> size_in_bytes fe' = new_size \<and> file_ok psb' fe' \<and>
    take (unat (size_in_bytes fe)) (contents st psb' fe') = contents st psb fe \<and>
    file_blocks fe' - file_blocks fe \<subseteq> free_blocks psb \<and> used_blocks psb' = used_blocks psb \<union> file_blocks fe'"
  using extend_run [OF assms] by blast

theorem extend_keeps_contents_witness:
  "\<exists>psb' fe'. portfs_extend host_env [] (sample_super [0x03]) (sample_file 0 []) 0 150 = Some (Inr (), 150, psb', fe') \<and>
    size_in_bytes fe' = 150 \<and> file_ok psb' fe'"
proof -
  have "\<exists>u s. portfs_extend host_env [] (sample_super [0x03]) (sample_file 0 []) 0 150 = Some (Inr u, s) \<and>
      unat (extent_count (file_u (snd (snd s)))) \<le> DIRECT_EXTENTS"
    by (rule run_Inr) code_simp
  then obtain isize' psb' fe' where run:
      "portfs_extend host_env [] (sample_super [0x03]) (sample_file 0 []) 0 150 = Some (Inr (), isize', psb', fe')"
      "unat (extent_count (file_u fe')) \<le> DIRECT_EXTENTS"
    by auto
  have "file_ok (sample_super [0x03]) (sample_file 0 [])"
    using wf_sample_empty by (simp add: file_ok_def sample_file_def)
  moreover have "no_indirect_alloc (sample_file 0 []) fe'"
    using run(2) by (simp add: no_indirect_alloc_def sample_file_def)
  ultimately show ?thesis
    using extend_keeps_contents [OF wf_sample_super _ host_env_ok run(1)] run(1)
    by (simp add: sample_file_def zero_entry_def sample_super_def)
qed

end
