(* ===== verification/Readdir.thy ===== *)
theory Readdir
  imports Inode_Spec
begin

text \<open>
  Listing a directory and opening a file: the rest of \<open>kernel/file.c\<close>.  The position of the directory
  stream (\<open>loff_t\<close>, never near its limits) is an \<open>int\<close>.  The buffer of the caller is the list of the
  entries it holds; whether it takes one more is a parameter, and so is \<open>dir_emit_dots\<close>, which puts the
  two dot entries there and counts the position up from 0 to 2.
\<close>

section \<open>Operations\<close>

datatype dtype = DT_DIR | DT_REG | DT_UNKNOWN

definition mode_to_dtype :: "u16 \<Rightarrow> dtype" where
  "mode_to_dtype m = (if S_ISDIR m then DT_DIR else if S_ISREG m then DT_REG else DT_UNKNOWN)"

record dirent =
  d_name :: "u8 list"
  d_ino :: u32
  d_type :: dtype

record dir_context =
  ctx_pos :: int
  emitted :: "dirent list"

record readdir_env = inode_env +
  dir_emit_ok :: "dirent list \<Rightarrow> dirent \<Rightarrow> bool"
  dir_emit_dots :: "dir_context \<Rightarrow> bool \<times> dir_context"

text \<open>The bytes before the terminator; reading past the buffer is a fault.\<close>

definition c_string_of :: "u8 list \<Rightarrow> u8 list option" where
  "c_string_of buf = (if 0 \<in> set buf then Some (takeWhile (\<lambda>c. c \<noteq> 0) buf) else None)"

text \<open>The loop; its index \<open>ctx->pos - 2\<close> is \<open>-1\<close> at position 1, which is a fault.\<close>

function readdir_loop ::
    "('a::type) readdir_env_scheme \<Rightarrow> portfs_superblock \<Rightarrow> dir_entry list ptr \<Rightarrow> nat \<Rightarrow> dir_context \<Rightarrow>
     ((errno + unit) \<times> dir_context) option" where
  "readdir_loop K psb entries num_entries ctx =
     (if ctx_pos ctx - 2 < int num_entries then
        if ctx_pos ctx < 2 then None
        else do {
          es \<leftarrow> deref entries;
          d_entry \<leftarrow> array_get es (nat (ctx_pos ctx - 2));
          if inode_number d_entry = 0
          then readdir_loop K psb entries num_entries (ctx\<lparr>ctx_pos := ctx_pos ctx + 1\<rparr>)
          else do {
            child \<leftarrow> portfs_get_inode_by_number K psb (inode_number d_entry);
            (case child of
               Inr (Some child_inode) \<Rightarrow> do {
                 name \<leftarrow> c_string_of (de_name d_entry);
                 let e = \<lparr>d_name = name, d_ino = inode_number d_entry, d_type = mode_to_dtype (i_mode child_inode)\<rparr>;
                 if \<not> dir_emit_ok K (emitted ctx) e then Some (Inl ENOMEM, ctx)
                 else readdir_loop K psb entries num_entries
                        (ctx\<lparr>ctx_pos := ctx_pos ctx + 1, emitted := emitted ctx @ [e]\<rparr>) }
             | _ \<Rightarrow> readdir_loop K psb entries num_entries (ctx\<lparr>ctx_pos := ctx_pos ctx + 1\<rparr>)) } }
      else Some (Inr (), ctx))"
  by pat_completeness auto
termination
  by (relation "measure (\<lambda>(K, psb, es, n, ctx). nat (int n + 2 - ctx_pos ctx))") auto

declare readdir_loop.simps [simp del]

definition portfs_iterate_shared ::
    "('a::type) readdir_env_scheme \<Rightarrow> u8 list \<Rightarrow> portfs_superblock \<Rightarrow> vinode \<Rightarrow> dir_context \<Rightarrow>
     ((errno + unit) \<times> dir_context \<times> portfs_superblock) option" where
  "portfs_iterate_shared K st psb inode ctx =
     (if uint (max_file_count psb) \<le> ctx_pos ctx then Some (Inr (), ctx, psb)
      else
        let (dots, ctx) = (if ctx_pos ctx = 0 then dir_emit_dots K ctx else (True, ctx))
        in if \<not> dots then Some (Inl EFAULT, ctx, psb)
           else (case i_private inode of
              None \<Rightarrow> Some (Inl ENOENT, ctx, psb)
            | Some k \<Rightarrow> do {
                (_, psb) \<leftarrow> on_entry psb k (\<lambda>psb dir. do {
                   (psb, dir) \<leftarrow> ensure_dir_entries K st psb dir;
                   Some ((), psb, dir) });
                dir \<leftarrow> array_get (filetable psb) k;
                (r, ctx) \<leftarrow> readdir_loop K psb (dir_entries dir) (get_max_dir_entries psb) ctx;
                Some (r, ctx, psb) }))"

text \<open>Opening only asks for the permission: \<open>permission\<close> is the result of \<open>inode_permission\<close>.\<close>

definition portfs_file_open :: "(errno + unit) \<Rightarrow> errno + unit" where
  "portfs_file_open permission = (case permission of Inl e \<Rightarrow> Inl e | Inr _ \<Rightarrow> Inr ())"

section \<open>What a listing contains\<close>

text \<open>The entry emitted for a slot: none for a free one and for a number without an inode.\<close>

definition dirents_of :: "('a::type) readdir_env_scheme \<Rightarrow> portfs_superblock \<Rightarrow> dir_entry \<Rightarrow> dirent list" where
  "dirents_of K psb e =
     (if inode_number e = 0 then []
      else case portfs_get_inode_by_number K psb (inode_number e) of
             Some (Inr (Some c)) \<Rightarrow> [\<lparr>d_name = name_of e, d_ino = inode_number e, d_type = mode_to_dtype (i_mode c)\<rparr>]
           | _ \<Rightarrow> [])"

lemma get_inode_by_number_safe:
  assumes "table_ok psb"
  shows "\<exists>r. portfs_get_inode_by_number K psb number = Some r"
proof (cases "\<exists>n < length (filetable psb). ino (filetable psb ! n) = number")
  case True
  let ?k = "LEAST n. ino (filetable psb ! n) = number"
  obtain n where n: "n < length (filetable psb)" "ino (filetable psb ! n) = number" using True by blast
  have "?k < length (filetable psb)" "ino (filetable psb ! ?k) = number"
    using n Least_le [of "\<lambda>n. ino (filetable psb ! n) = number" n]
      LeastI [of "\<lambda>n. ino (filetable psb ! n) = number" n] by simp_all
  then show ?thesis
    using get_inode_by_number_run [OF assms, of ?k number K] not_less_Least by blast
next
  case False
  then have "find_u32 0 (max_file_count psb)
      (\<lambda>i. map_option (\<lambda>e. ino e = number) (array_get (filetable psb) (unat i))) = Some None"
    using find_u32_rule [of 0 "max_file_count psb"
        "\<lambda>i. map_option (\<lambda>e. ino e = number) (array_get (filetable psb) (unat i))"
        "\<lambda>n. ino (filetable psb ! n) = number"] assms
    by (auto simp: array_get_in table_ok_def word_less_nat_alt)
  then show ?thesis by (simp add: portfs_get_inode_by_number_def)
qed

lemma c_string_of_entry: "entry_ok e \<Longrightarrow> c_string_of (de_name e) = Some (name_of e)"
  by (simp add: entry_ok_def c_string_of_def name_of_def)

text \<open>One round of the loop, in terms of the entry it emits.\<close>

lemma readdir_loop_round:
  assumes "table_ok psb" and "dir_ok n es" and "2 \<le> ctx_pos ctx" and "ctx_pos ctx - 2 < int n"
  shows "readdir_loop K psb (Live es) n ctx =
    (case dirents_of K psb (es ! nat (ctx_pos ctx - 2)) of
       [] \<Rightarrow> readdir_loop K psb (Live es) n (ctx\<lparr>ctx_pos := ctx_pos ctx + 1\<rparr>)
     | e # _ \<Rightarrow> if dir_emit_ok K (emitted ctx) e
                then readdir_loop K psb (Live es) n (ctx\<lparr>ctx_pos := ctx_pos ctx + 1, emitted := emitted ctx @ [e]\<rparr>)
                else Some (Inl ENOMEM, ctx))"
proof -
  let ?e = "es ! nat (ctx_pos ctx - 2)"
  have i: "nat (ctx_pos ctx - 2) < length es" using assms(2-4) by (simp add: dir_ok_def)
  then have "c_string_of (de_name ?e) = Some (name_of ?e)"
    using assms(2) by (intro c_string_of_entry) (simp add: dir_ok_def)
  moreover obtain r where "portfs_get_inode_by_number K psb (inode_number ?e) = Some r"
    using get_inode_by_number_safe [OF assms(1)] by blast
  ultimately show ?thesis
    using assms(3,4) i
    by (subst readdir_loop.simps) (simp add: array_get_in dirents_of_def split: sum.splits option.splits)
qed

text \<open>A listing from position \<open>pos\<close> up to position \<open>stop\<close>.\<close>

definition listing ::
    "('a::type) readdir_env_scheme \<Rightarrow> portfs_superblock \<Rightarrow> dir_entry list \<Rightarrow> int \<Rightarrow> int \<Rightarrow> dirent list" where
  "listing K psb es pos stop =
     concat (map (dirents_of K psb) (take (nat (stop - pos)) (drop (nat (pos - 2)) es)))"

lemma listing_step:
  assumes "2 \<le> pos" and "pos < stop" and "nat (pos - 2) < length es"
  shows "listing K psb es pos stop = dirents_of K psb (es ! nat (pos - 2)) @ listing K psb es (pos + 1) stop"
proof -
  have "drop (nat (pos - 2)) es = es ! nat (pos - 2) # drop (nat (pos + 1 - 2)) es"
  proof -
    have "nat (pos + 1 - 2) = Suc (nat (pos - 2))" using assms(1) by linarith
    with assms(3) show ?thesis by (simp only: Cons_nth_drop_Suc)
  qed
  moreover have "nat (stop - pos) = Suc (nat (stop - (pos + 1)))" using assms(2) by linarith
  ultimately show ?thesis by (simp add: listing_def)
qed

text \<open>How a call ends: at the end of the directory, or at an entry that the caller's buffer does not take.\<close>

definition list_result :: "('a::type) readdir_env_scheme \<Rightarrow> nat \<Rightarrow> dirent list \<Rightarrow> (errno + unit) \<Rightarrow> int \<Rightarrow> bool" where
  "list_result K n out r stop \<longleftrightarrow> (if r = Inr () then stop = int n + 2
     else r = Inl ENOMEM \<and> stop < int n + 2 \<and> (\<exists>e. \<not> dir_emit_ok K out e))"

lemma readdir_loop_lists:
  assumes "table_ok psb" and "dir_ok n es" and "2 \<le> ctx_pos ctx" and "ctx_pos ctx \<le> int n + 2"
  shows "\<exists>r stop. readdir_loop K psb (Live es) n ctx =
      Some (r, \<lparr>ctx_pos = stop, emitted = emitted ctx @ listing K psb es (ctx_pos ctx) stop\<rparr>) \<and>
    ctx_pos ctx \<le> stop \<and> list_result K n (emitted ctx @ listing K psb es (ctx_pos ctx) stop) r stop"
  using assms
proof (induction "nat (int n + 2 - ctx_pos ctx)" arbitrary: ctx)
  case 0
  then show ?case by (subst readdir_loop.simps) (auto simp: listing_def list_result_def)
next
  case (Suc m)
  let ?pos = "ctx_pos ctx" and ?ds = "dirents_of K psb (es ! nat (ctx_pos ctx - 2))"
  have lt: "?pos - 2 < int n" "nat (?pos - 2) < length es" and m: "m = nat (int n + 2 - (?pos + 1))"
    using Suc.hyps(2) Suc.prems by (simp_all add: dir_ok_def)
  note round = readdir_loop_round [OF Suc.prems(1-3) lt(1), of K]
  have step: "\<exists>r stop. readdir_loop K psb (Live es) n \<lparr>ctx_pos = ?pos + 1, emitted = out\<rparr> =
      Some (r, \<lparr>ctx_pos = stop, emitted = out @ listing K psb es (?pos + 1) stop\<rparr>) \<and> ?pos + 1 \<le> stop \<and>
      list_result K n (out @ listing K psb es (?pos + 1) stop) r stop" for out
    using Suc.hyps(1) [of "\<lparr>ctx_pos = ?pos + 1, emitted = out\<rparr>"] m Suc.prems lt by simp
  have ctx: "ctx\<lparr>ctx_pos := p, emitted := out\<rparr> = \<lparr>ctx_pos = p, emitted = out\<rparr>"
    "ctx\<lparr>ctx_pos := p\<rparr> = \<lparr>ctx_pos = p, emitted = emitted ctx\<rparr>" for p out by simp_all
  consider "?ds = []" | e where "?ds = [e]" "dir_emit_ok K (emitted ctx) e" | e where "?ds = [e]" "\<not> dir_emit_ok K (emitted ctx) e"
    by (cases ?ds) (auto simp: dirents_of_def split: if_splits option.splits sum.splits)
  then show ?case
  proof cases
    case 1
    obtain r stop where rs: "readdir_loop K psb (Live es) n \<lparr>ctx_pos = ?pos + 1, emitted = emitted ctx\<rparr> =
      Some (r, \<lparr>ctx_pos = stop, emitted = emitted ctx @ listing K psb es (?pos + 1) stop\<rparr>)" "?pos + 1 \<le> stop"
      "list_result K n (emitted ctx @ listing K psb es (?pos + 1) stop) r stop" using step by blast
    then show ?thesis
      using 1 round listing_step [OF Suc.prems(3) _ lt(2), of stop K psb]
      by (intro exI [of _ r] exI [of _ stop]) (simp add: ctx)
  next
    case (2 e)
    obtain r stop where rs: "readdir_loop K psb (Live es) n \<lparr>ctx_pos = ?pos + 1, emitted = emitted ctx @ [e]\<rparr> =
      Some (r, \<lparr>ctx_pos = stop, emitted = (emitted ctx @ [e]) @ listing K psb es (?pos + 1) stop\<rparr>)" "?pos + 1 \<le> stop"
      "list_result K n ((emitted ctx @ [e]) @ listing K psb es (?pos + 1) stop) r stop" using step by blast
    then show ?thesis
      using 2 round listing_step [OF Suc.prems(3) _ lt(2), of stop K psb]
      by (intro exI [of _ r] exI [of _ stop]) (simp add: ctx)
  next
    case (3 e)
    then show ?thesis
      using round lt(1) by (intro exI [of _ "Inl ENOMEM"] exI [of _ ?pos]) (auto simp: listing_def list_result_def)
  qed
qed

lemma iterate_run:
  assumes "table_ok psb" and "i_private inode = Some k" and "k < length (filetable psb)"
    and "loaded_dir psb (filetable psb ! k) es"
    and "2 \<le> ctx_pos ctx" and "ctx_pos ctx \<le> int (length es) + 2" and "ctx_pos ctx < uint (max_file_count psb)"
  shows "\<exists>r stop. portfs_iterate_shared K st psb inode ctx =
      Some (r, \<lparr>ctx_pos = stop, emitted = emitted ctx @ listing K psb es (ctx_pos ctx) stop\<rparr>, psb) \<and>
    ctx_pos ctx \<le> stop \<and> list_result K (length es) (emitted ctx @ listing K psb es (ctx_pos ctx) stop) r stop"
proof -
  let ?n = "get_max_dir_entries psb"
  have dir: "dir_ok ?n es" "length es = ?n" "dir_entries (filetable psb ! k) = Live es"
    using assms(4) by (simp_all add: loaded_dir_def dir_ok_def)
  obtain r stop where run: "readdir_loop K psb (Live es) ?n ctx =
      Some (r, \<lparr>ctx_pos = stop, emitted = emitted ctx @ listing K psb es (ctx_pos ctx) stop\<rparr>)"
      "ctx_pos ctx \<le> stop" "list_result K ?n (emitted ctx @ listing K psb es (ctx_pos ctx) stop) r stop"
    using readdir_loop_lists [OF assms(1) dir(1) assms(5), of K] assms(6) dir(2) by auto
  have "on_entry psb k (\<lambda>psb dir. do { (psb, dir) \<leftarrow> ensure_dir_entries K st psb dir; Some ((), psb, dir) }) =
      Some ((), psb)"
    using assms(3) dir(3) by (simp add: on_entry_def array_simps ensure_dir_entries_def)
  then have "portfs_iterate_shared K st psb inode ctx =
      Some (r, \<lparr>ctx_pos = stop, emitted = emitted ctx @ listing K psb es (ctx_pos ctx) stop\<rparr>, psb)"
    using assms(2,3,5,7) dir(3) run(1) by (simp add: portfs_iterate_shared_def array_simps)
  with run(2,3) dir(2) show ?thesis by auto
qed

lemma listing_split:
  assumes "2 \<le> pos" and "pos \<le> stop" and "stop \<le> later"
  shows "listing K psb es pos stop @ listing K psb es stop later = listing K psb es pos later"
proof -
  have "nat (later - pos) = nat (stop - pos) + nat (later - stop)" "nat (stop - 2) = nat (stop - pos) + nat (pos - 2)"
    using assms by linarith+
  then show ?thesis by (simp only: listing_def take_add map_append concat_append drop_drop)
qed

section \<open>A client that lists a directory\<close>

text \<open>
  The system call \<open>getdents\<close> in a loop: each call has an empty buffer and continues at the position of
  the last one, a call that emitted something succeeds, and an empty one ends the listing.
\<close>

fun list_calls ::
    "('a::type) readdir_env_scheme \<Rightarrow> u8 list \<Rightarrow> portfs_superblock \<Rightarrow> vinode \<Rightarrow> nat \<Rightarrow> int \<Rightarrow>
     (errno + dirent list) option" where
  "list_calls K st psb inode 0 pos = None"
| "list_calls K st psb inode (Suc fuel) pos = do {
     (r, ctx, psb) \<leftarrow> portfs_iterate_shared K st psb inode \<lparr>ctx_pos = pos, emitted = []\<rparr>;
     if emitted ctx = [] then Some (map_sum id (\<lambda>_. []) r)
     else map_option (map_sum id (\<lambda>ds. emitted ctx @ ds)) (list_calls K st psb inode fuel (ctx_pos ctx)) }"

lemma list_calls_complete:
  assumes "table_ok psb" and "i_private inode = Some k" and "k < length (filetable psb)"
    and "loaded_dir psb (filetable psb ! k) es" and "int (length es) + 2 < uint (max_file_count psb)"
    and "\<forall>e. dir_emit_ok K [] e" and "2 \<le> pos" and "pos \<le> int (length es) + 2"
    and "nat (int (length es) + 2 - pos) < fuel"
  shows "list_calls K st psb inode fuel pos = Some (Inr (listing K psb es pos (int (length es) + 2)))"
  using assms(7-9)
proof (induction fuel arbitrary: pos)
  case (Suc fuel)
  let ?last = "int (length es) + 2"
  obtain r stop where run: "portfs_iterate_shared K st psb inode \<lparr>ctx_pos = pos, emitted = []\<rparr> =
      Some (r, \<lparr>ctx_pos = stop, emitted = listing K psb es pos stop\<rparr>, psb)"
      "pos \<le> stop" "list_result K (length es) (listing K psb es pos stop) r stop"
    using iterate_run [OF assms(1-4), of "\<lparr>ctx_pos = pos, emitted = []\<rparr>" K st] Suc.prems assms(5) by auto
  have stop: "stop \<le> ?last" using run(3) by (auto simp: list_result_def split: if_splits)
  show ?case
  proof (cases "listing K psb es pos stop = []")
    case True
    with run(3) assms(6) have "r = Inr ()" "stop = ?last" by (auto simp: list_result_def split: if_splits)
    with True run(1) show ?thesis by simp
  next
    case False
    then have "pos \<noteq> stop" by (auto simp: listing_def)
    with run(2) have "pos < stop" by simp
    then have "nat (?last - stop) < fuel" using Suc.prems stop by linarith
    then have "list_calls K st psb inode fuel stop = Some (Inr (listing K psb es stop ?last))"
      using Suc.IH [of stop] run(2) stop Suc.prems(1) by simp
    with False run(1) listing_split [OF Suc.prems(1) run(2) stop, of K psb es] show ?thesis by simp
  qed
qed simp

section \<open>A concrete directory stream\<close>

definition readdir_host :: readdir_env where
  "readdir_host = inode_env.extend inode_host (readdir_env.fields (\<lambda>out e. True) (\<lambda>ctx.
     (True, \<lparr>ctx_pos = 2, emitted = emitted ctx @ [\<lparr>d_name = [46], d_ino = 1, d_type = DT_DIR\<rparr>,
        \<lparr>d_name = [46, 46], d_ino = 1, d_type = DT_DIR\<rparr>]\<rparr>)))"

definition listed_entries :: "dir_entry list" where
  "listed_entries = [\<lparr>de_name = [97] @ replicate 63 0, inode_number = 7\<rparr>, zero_dir_entry]"

definition listed_fs :: portfs_superblock where
  "listed_fs = named_fs\<lparr>max_file_count := 3, filetable := filetable named_fs @ [zero_entry]\<rparr>"

lemma listed_fs_facts:
  "table_ok listed_fs" "loaded_dir listed_fs (filetable listed_fs ! 0) listed_entries" "length listed_entries = 2"
  by (auto simp: table_ok_def listed_fs_def listed_entries_def named_fs_def loaded_dir_def sample_dir_def
      is_directory_def S_ISDIR_def dir_ok_def entry_ok_def zero_dir_entry_def name_of_def
      get_max_dir_entries_def sample_super_def)

section \<open>Properties\<close>

text \<open>
  C28: Listing a loaded directory from a position behind the dot entries emits, in order, one entry for
  every name from there up to the position it returns: all remaining ones when it succeeds, a prefix
  when the caller's buffer is full.  Calls that continue at the returned position thus neither skip nor
  repeat a name.  The file system does not change.
\<close>

theorem iterate_lists_directory:
  assumes "table_ok psb" and "i_private inode = Some k" and "k < length (filetable psb)"
    and "loaded_dir psb (filetable psb ! k) es"
    and "2 \<le> ctx_pos ctx" and "ctx_pos ctx \<le> int (length es) + 2" and "ctx_pos ctx < uint (max_file_count psb)"
  shows "\<exists>r stop. portfs_iterate_shared K st psb inode ctx =
      Some (r, \<lparr>ctx_pos = stop, emitted = emitted ctx @ listing K psb es (ctx_pos ctx) stop\<rparr>, psb) \<and>
    ctx_pos ctx \<le> stop \<and>
    (if r = Inr () then stop = int (length es) + 2 else r = Inl ENOMEM \<and> stop < int (length es) + 2) \<and>
    (\<forall>later. stop \<le> later \<longrightarrow> listing K psb es (ctx_pos ctx) stop @ listing K psb es stop later =
       listing K psb es (ctx_pos ctx) later)"
proof -
  obtain r stop where run: "portfs_iterate_shared K st psb inode ctx =
      Some (r, \<lparr>ctx_pos = stop, emitted = emitted ctx @ listing K psb es (ctx_pos ctx) stop\<rparr>, psb)"
      "ctx_pos ctx \<le> stop" "list_result K (length es) (emitted ctx @ listing K psb es (ctx_pos ctx) stop) r stop"
    using iterate_run [OF assms] by blast
  then show ?thesis
    using listing_split [OF assms(5) run(2)]
    by (intro exI [of _ r] exI [of _ stop]) (auto simp: list_result_def split: if_splits)
qed

theorem iterate_lists_directory_witness:
  "\<exists>r stop. portfs_iterate_shared readdir_host [] listed_fs root_inode \<lparr>ctx_pos = 2, emitted = []\<rparr> =
      Some (r, \<lparr>ctx_pos = stop, emitted = listing readdir_host listed_fs listed_entries 2 stop\<rparr>, listed_fs) \<and> 2 \<le> stop"
  using iterate_lists_directory [OF listed_fs_facts(1) _ _ listed_fs_facts(2), of root_inode
      "\<lparr>ctx_pos = 2, emitted = []\<rparr>" readdir_host "[]"] listed_fs_facts(3)
  by (auto simp: root_inode_def listed_fs_def)

text \<open>
  C29: If one entry always fits into an empty buffer, a client that calls until nothing more comes has the
  complete listing after at most as many calls as the directory has slots and one more: no call that stops
  early is stuck, however small the buffer is.
\<close>

theorem listing_completes:
  assumes "table_ok psb" and "i_private inode = Some k" and "k < length (filetable psb)"
    and "loaded_dir psb (filetable psb ! k) es" and "int (length es) + 2 < uint (max_file_count psb)"
    and "\<forall>e. dir_emit_ok K [] e" and "length es < calls"
  shows "list_calls K st psb inode calls 2 = Some (Inr (concat (map (dirents_of K psb) es)))"
  using list_calls_complete [OF assms(1-6), of 2 calls st] assms(7) by (simp add: listing_def)

definition narrow_host :: readdir_env where
  "narrow_host = readdir_host\<lparr>dir_emit_ok := \<lambda>out e. out = []\<rparr>"

theorem listing_completes_witness:
  "list_calls narrow_host [] (listed_fs\<lparr>max_file_count := 5, filetable := filetable listed_fs @ [zero_entry, zero_entry]\<rparr>) root_inode 3 2 =
     Some (Inr (concat (map (dirents_of narrow_host
       (listed_fs\<lparr>max_file_count := 5, filetable := filetable listed_fs @ [zero_entry, zero_entry]\<rparr>)) listed_entries)))"
  by (rule listing_completes [where k = 0])
    (use listed_fs_facts in \<open>simp_all add: table_ok_def root_inode_def narrow_host_def nth_append listed_fs_def
       loaded_dir_def get_max_dir_entries_def\<close>)

text \<open>
  When only the first of the two dot entries fits into the caller's buffer, the call returns
  \<open>EFAULT\<close> at position 1, and the next call reads the entry with the index \<open>-1\<close>.
\<close>

theorem iterate_reads_index_minus_one:
  assumes "i_private inode = Some k" and "k < length (filetable psb)"
    and "loaded_dir psb (filetable psb ! k) es" and "es \<noteq> []" and "1 < uint (max_file_count psb)"
    and "ctx_pos ctx = 0" and "dir_emit_dots K ctx = (False, ctx\<lparr>ctx_pos := 1, emitted := [dot]\<rparr>)"
  shows "portfs_iterate_shared K st psb inode ctx = Some (Inl EFAULT, ctx\<lparr>ctx_pos := 1, emitted := [dot]\<rparr>, psb) \<and>
    portfs_iterate_shared K st psb inode (ctx\<lparr>ctx_pos := 1, emitted := []\<rparr>) = None"
proof -
  have "0 < length es" using assms(4) by simp
  with assms(3) have dir: "dir_entries (filetable psb ! k) = Live es" "0 < get_max_dir_entries psb"
    by (simp_all add: loaded_dir_def dir_ok_def)
  have "on_entry psb k (\<lambda>psb dir. do { (psb, dir) \<leftarrow> ensure_dir_entries K st psb dir; Some ((), psb, dir) }) =
      Some ((), psb)"
    using assms(2) dir(1) by (simp add: on_entry_def array_simps ensure_dir_entries_def)
  moreover have "readdir_loop K psb (Live es) (get_max_dir_entries psb) (ctx\<lparr>ctx_pos := 1, emitted := []\<rparr>) = None"
    using dir(2) by (subst readdir_loop.simps) simp
  ultimately show ?thesis
    using assms(1,2,5-7) dir(1) by (simp add: portfs_iterate_shared_def array_simps)
qed

definition one_dot_host :: readdir_env where
  "one_dot_host = readdir_host\<lparr>dir_emit_dots :=
     \<lambda>ctx. (False, ctx\<lparr>ctx_pos := 1, emitted := [\<lparr>d_name = [46], d_ino = 1, d_type = DT_DIR\<rparr>]\<rparr>)\<rparr>"

theorem iterate_reads_index_minus_one_witness:
  "\<exists>ctx. portfs_iterate_shared one_dot_host [] listed_fs root_inode \<lparr>ctx_pos = 0, emitted = []\<rparr> =
      Some (Inl EFAULT, ctx, listed_fs) \<and>
    portfs_iterate_shared one_dot_host [] listed_fs root_inode (ctx\<lparr>emitted := []\<rparr>) = None"
proof -
  have "dir_emit_dots one_dot_host \<lparr>ctx_pos = 0, emitted = []\<rparr> = (False, \<lparr>ctx_pos = 0, emitted = []\<rparr>
      \<lparr>ctx_pos := 1, emitted := [\<lparr>d_name = [46], d_ino = 1, d_type = DT_DIR\<rparr>]\<rparr>)"
    by (simp add: one_dot_host_def)
  from iterate_reads_index_minus_one [OF _ _ listed_fs_facts(2) _ _ _ this, of root_inode "[]"]
  show ?thesis by (auto simp: root_inode_def listed_fs_def listed_entries_def)
qed

end
