(* ===== verification/Disk_Layout.thy ===== *)
theory Disk_Layout
  imports Directory
begin

text \<open>
  The on-disk structures of \<open>common/shared_structs.h\<close> and \<open>kernel/directory.h\<close>.  They are packed, so
  the image of a structure is the concatenation of the images of its fields.  A field holds a big-endian
  integer; what the C code sees in it is the host's reading of these bytes, which \<open>cpu_to_be\<close> makes and
  \<open>be_to_cpu\<close> undoes.  The union of a file table entry is kept as its bytes, because the code writes
  single members of it over memory it has not initialised.
\<close>

section \<open>Conversions of byte order\<close>

text \<open>\<open>cpu_to_be16\<close>, \<open>cpu_to_be32\<close>, \<open>cpu_to_be64\<close> and back, for integers of \<open>n\<close> bytes.\<close>

definition cpu_to_be :: "bool \<Rightarrow> nat \<Rightarrow> 'a::len word \<Rightarrow> 'a word" where
  "cpu_to_be little n w = cpu_word little (be_bytes n w)"

definition be_to_cpu :: "bool \<Rightarrow> nat \<Rightarrow> 'a::len word \<Rightarrow> 'a word" where
  "be_to_cpu little n w = be_word (cpu_bytes little n w)"

lemma le_word_bound: "take_bit (8 * length bs) (le_word bs :: 'a::len word) = le_word bs"
proof (induction bs)
  case (Cons b bs)
  have small: "bit (le_word bs :: 'a word) k \<Longrightarrow> k < 8 * length bs" for k
    using Cons by (metis bit_take_bit_iff)
  have "n < 8 + 8 * length bs" if "bit b n \<or> bit (le_word bs :: 'a word) (n - 8)" for n
    using that small [of "n - 8"] bit_imp_le_length [of b n] by auto
  then show ?case
    by (intro bit_word_eqI) (auto simp: bit_simps)
qed simp

lemma le_bytes_le_word [simp]:
  "8 * length bs \<le> LENGTH('a) \<Longrightarrow> le_bytes (length bs) (le_word bs :: 'a::len word) = bs"
proof (induction bs)
  case (Cons b bs)
  let ?w = "le_word bs :: 'a word"
  have small: "bit ?w k \<Longrightarrow> k < 8 * length bs" for k
    using le_word_bound [of bs, where 'a = 'a] by (metis bit_take_bit_iff)
  have "ucast (ucast b OR push_bit 8 ?w) = b"
    using Cons.prems by (intro bit_word_eqI) (auto simp: bit_simps)
  moreover have "drop_bit 8 (ucast b OR push_bit 8 ?w) = ?w"
  proof (rule bit_word_eqI)
    fix k
    have "\<not> bit b (k + 8)" using bit_imp_le_length [of b "k + 8"] by auto
    moreover have "k + 8 < LENGTH('a)" if "bit ?w k" using small [OF that] Cons.prems by simp
    ultimately show "bit (drop_bit 8 (ucast b OR push_bit 8 ?w)) k = bit ?w k"
      by (auto simp: bit_simps ac_simps)
  qed
  ultimately show ?case using Cons by simp
qed simp

lemma cpu_bytes_cpu_word [simp]:
  "length bs = n \<Longrightarrow> 8 * n \<le> LENGTH('a) \<Longrightarrow> cpu_bytes little n (cpu_word little bs :: 'a::len word) = bs"
  using le_bytes_le_word [of bs, where 'a = 'a] le_bytes_le_word [of "rev bs", where 'a = 'a]
  by (auto simp: cpu_bytes_def cpu_word_def be_bytes_def be_word_def)

lemma be_bytes_be_word [simp]:
  "length bs = n \<Longrightarrow> 8 * n \<le> LENGTH('a) \<Longrightarrow> be_bytes n (be_word bs :: 'a::len word) = bs"
  using cpu_bytes_cpu_word [of bs n False, where 'a = 'a] by (simp add: cpu_bytes_def cpu_word_def)

text \<open>What is in memory for a converted field, and the two conversions undo each other.\<close>

lemma cpu_bytes_cpu_to_be [simp]:
  "8 * n \<le> LENGTH('a) \<Longrightarrow> cpu_bytes little n (cpu_to_be little n (w :: 'a::len word)) = be_bytes n w"
  by (simp add: cpu_to_be_def)

lemma be_to_cpu_cpu_to_be [simp]:
  "8 * n = LENGTH('a) \<Longrightarrow> be_to_cpu little n (cpu_to_be little n (w :: 'a::len word)) = w"
  by (simp add: be_to_cpu_def)

lemma be_to_cpu_cpu_word [simp]:
  "length bs = n \<Longrightarrow> 8 * n \<le> LENGTH('a) \<Longrightarrow> be_to_cpu little n (cpu_word little bs :: 'a::len word) = be_word bs"
  by (simp add: be_to_cpu_def)

lemma cpu_to_be_eq_be_to_cpu: "8 * n = LENGTH('a) \<Longrightarrow> cpu_to_be little n (w :: 'a::len word) = be_to_cpu little n w"
  by (simp add: cpu_to_be_def be_to_cpu_def cpu_word_def cpu_bytes_def be_word_def be_bytes_def)

section \<open>The structures\<close>

record disk_superblock =
  ds_magic_number :: u32
  ds_block_size :: u32
  ds_total_blocks :: u32
  ds_filetable_start :: u32
  ds_filetable_size :: u32
  ds_block_bitmap_start :: u32
  ds_block_bitmap_size :: u32
  ds_data_start :: u32
  ds_max_file_count :: u32
  ds_checksum :: u32
  ds_last_mount_time :: u64
  ds_last_write_time :: u64
  ds_flags :: u32

record disk_extent =
  dx_start_block :: u32
  dx_length :: u32

record disk_file_data =
  df_extent_count :: u16
  df_extents_block :: u32
  df_direct_extents :: "disk_extent list"

record disk_dir_data =
  dd_dir_block :: u32
  dd_parent_dir_ino :: u32

record disk_filetable_entry =
  d_entry_ino :: u32
  d_entry_mode :: u16
  d_entry_size :: u64
  d_entry_union :: "u8 list"

record disk_dir_entry =
  dde_name :: "u8 list"
  dde_inode_number :: u32

text \<open>The field at an offset, as the host reads it.\<close>

definition field :: "bool \<Rightarrow> nat \<Rightarrow> nat \<Rightarrow> u8 list \<Rightarrow> 'a::len word" where
  "field little p n bs = cpu_word little (take n (drop p bs))"

section \<open>Images\<close>

definition disk_superblock_bytes :: "bool \<Rightarrow> disk_superblock \<Rightarrow> u8 list" where
  "disk_superblock_bytes little d =
     cpu_bytes little 4 (ds_magic_number d) @ cpu_bytes little 4 (ds_block_size d) @
     cpu_bytes little 4 (ds_total_blocks d) @ cpu_bytes little 4 (ds_filetable_start d) @
     cpu_bytes little 4 (ds_filetable_size d) @ cpu_bytes little 4 (ds_block_bitmap_start d) @
     cpu_bytes little 4 (ds_block_bitmap_size d) @ cpu_bytes little 4 (ds_data_start d) @
     cpu_bytes little 4 (ds_max_file_count d) @ cpu_bytes little 4 (ds_checksum d) @
     cpu_bytes little 8 (ds_last_mount_time d) @ cpu_bytes little 8 (ds_last_write_time d) @
     cpu_bytes little 4 (ds_flags d)"

definition read_disk_superblock :: "bool \<Rightarrow> u8 list \<Rightarrow> disk_superblock" where
  "read_disk_superblock little bs =
     \<lparr>ds_magic_number = field little 0 4 bs, ds_block_size = field little 4 4 bs,
      ds_total_blocks = field little 8 4 bs, ds_filetable_start = field little 12 4 bs,
      ds_filetable_size = field little 16 4 bs, ds_block_bitmap_start = field little 20 4 bs,
      ds_block_bitmap_size = field little 24 4 bs, ds_data_start = field little 28 4 bs,
      ds_max_file_count = field little 32 4 bs, ds_checksum = field little 36 4 bs,
      ds_last_mount_time = field little 40 8 bs, ds_last_write_time = field little 48 8 bs,
      ds_flags = field little 56 4 bs\<rparr>"

definition disk_extent_bytes :: "bool \<Rightarrow> disk_extent \<Rightarrow> u8 list" where
  "disk_extent_bytes little x = cpu_bytes little 4 (dx_start_block x) @ cpu_bytes little 4 (dx_length x)"

definition disk_entry_bytes :: "bool \<Rightarrow> disk_filetable_entry \<Rightarrow> u8 list" where
  "disk_entry_bytes little d = cpu_bytes little 4 (d_entry_ino d) @ cpu_bytes little 2 (d_entry_mode d) @
     cpu_bytes little 8 (d_entry_size d) @ d_entry_union d"

definition read_disk_entry :: "bool \<Rightarrow> u8 list \<Rightarrow> disk_filetable_entry" where
  "read_disk_entry little bs =
     \<lparr>d_entry_ino = field little 0 4 bs, d_entry_mode = field little 4 2 bs,
      d_entry_size = field little 6 8 bs, d_entry_union = take 38 (drop 14 bs)\<rparr>"

text \<open>The two members of the union.\<close>

definition union_file :: "bool \<Rightarrow> u8 list \<Rightarrow> disk_file_data" where
  "union_file little u =
     \<lparr>df_extent_count = field little 0 2 u, df_extents_block = field little 2 4 u,
      df_direct_extents = map (\<lambda>k. \<lparr>dx_start_block = field little (6 + 8 * k) 4 u,
        dx_length = field little (10 + 8 * k) 4 u\<rparr>) [0..<DIRECT_EXTENTS]\<rparr>"

definition union_dir :: "bool \<Rightarrow> u8 list \<Rightarrow> disk_dir_data" where
  "union_dir little u = \<lparr>dd_dir_block = field little 0 4 u, dd_parent_dir_ino = field little 4 4 u\<rparr>"

definition disk_dir_entry_bytes :: "bool \<Rightarrow> disk_dir_entry \<Rightarrow> u8 list" where
  "disk_dir_entry_bytes little e = dde_name e @ cpu_bytes little 4 (dde_inode_number e)"

section \<open>Reading what was written\<close>

lemma length_disk_superblock_bytes [simp]: "length (disk_superblock_bytes little d) = 60"
  by (simp add: disk_superblock_bytes_def)

lemma length_disk_extent_bytes [simp]: "length (disk_extent_bytes little x) = 8"
  by (simp add: disk_extent_bytes_def)

lemma length_disk_entry_bytes [simp]: "length (d_entry_union d) = 38 \<Longrightarrow> length (disk_entry_bytes little d) = 52"
  by (simp add: disk_entry_bytes_def)

lemma read_disk_superblock_bytes [simp]: "read_disk_superblock little (disk_superblock_bytes little d) = d"
  by (simp add: read_disk_superblock_def disk_superblock_bytes_def field_def)

lemma read_disk_entry_bytes [simp]:
  "length (d_entry_union d) = 38 \<Longrightarrow> read_disk_entry little (disk_entry_bytes little d) = d"
  by (simp add: read_disk_entry_def disk_entry_bytes_def field_def)

end
