(* ===== verification/Sync.thy ===== *)
theory Sync
  imports Disk_Layout
begin

text \<open>
  Writing the file system's data to the storage: the first half of \<open>kernel/super.c\<close>.  Memory that
  \<open>kmalloc\<close> returns is not initialised: \<open>fresh_disk_entry\<close> is what the buffer for the file table holds
  at first.
\<close>

section \<open>Operations\<close>

record sync_env = kenv +
  fresh_disk_entry :: "nat \<Rightarrow> disk_filetable_entry"
  vfs_fsync :: "errno + unit"

abbreviation WRITE_BUFFER_SIZE :: nat where
  "WRITE_BUFFER_SIZE \<equiv> 1024 * 1024"

text \<open>The position argument of \<open>kernel_write\<close> is NULL here, which means the start of the file.\<close>

definition disk_super_of :: "bool \<Rightarrow> portfs_superblock \<Rightarrow> disk_superblock" where
  "disk_super_of little msb =
     \<lparr>ds_magic_number = cpu_to_be little 4 (magic_number msb), ds_block_size = cpu_to_be little 4 (block_size msb),
      ds_total_blocks = cpu_to_be little 4 (total_blocks msb),
      ds_filetable_start = cpu_to_be little 4 (filetable_start msb),
      ds_filetable_size = cpu_to_be little 4 (filetable_size msb),
      ds_block_bitmap_start = cpu_to_be little 4 (block_bitmap_start msb),
      ds_block_bitmap_size = cpu_to_be little 4 (block_bitmap_size msb),
      ds_data_start = cpu_to_be little 4 (data_start msb),
      ds_max_file_count = cpu_to_be little 4 (max_file_count msb), ds_checksum = cpu_to_be little 4 (checksum msb),
      ds_last_mount_time = 0, ds_last_write_time = 0, ds_flags = 0\<rparr>"

definition portfs_sync_superblock ::
    "('a::type) kenv_scheme \<Rightarrow> u8 list \<Rightarrow> portfs_superblock \<Rightarrow> (errno + unit) \<times> u8 list" where
  "portfs_sync_superblock K st msb =
     (let (r, st) = kernel_write K st 0
            (disk_superblock_bytes (little_endian K) (disk_super_of (little_endian K) msb))
      in (case r of Inl e \<Rightarrow> Inl e | Inr _ \<Rightarrow> Inr (), st))"

text \<open>The loop over the extents of an entry, all of them taken from the array of direct ones.\<close>

function fill_extents_loop :: "bool \<Rightarrow> filetable_entry \<Rightarrow> nat \<Rightarrow> u8 list \<Rightarrow> u8 list option" where
  "fill_extents_loop little src k u =
     (if k < unat (extent_count (file_u src)) then do {
        e \<leftarrow> array_get (direct_extents (file_u src)) k;
        fill_extents_loop little src (Suc k)
          (overwrite u (6 + 8 * k)
             (disk_extent_bytes little \<lparr>dx_start_block = cpu_to_be little 4 (start_block e),
                                        dx_length = cpu_to_be little 4 (ext_length e)\<rparr>)) }
      else Some u)"
  by pat_completeness auto
termination
  by (relation "measure (\<lambda>(l, src, k, u). unat (extent_count (file_u src)) - k)") auto

declare fill_extents_loop.simps [simp del]

definition portfs_fill_file_data ::
    "bool \<Rightarrow> filetable_entry \<Rightarrow> disk_filetable_entry \<Rightarrow> disk_filetable_entry option" where
  "portfs_fill_file_data little src dst = do {
     u \<leftarrow> fill_extents_loop little src 0
            (overwrite (overwrite (d_entry_union dst)
                0 (cpu_bytes little 2 (cpu_to_be little 2 (extent_count (file_u src)))))
                2 (cpu_bytes little 4 (cpu_to_be little 4 (extents_block (file_u src)))));
     Some \<lparr>d_entry_ino = cpu_to_be little 4 (ino src), d_entry_mode = cpu_to_be little 2 (mode src),
           d_entry_size = cpu_to_be little 8 (size_in_bytes src), d_entry_union = u\<rparr> }"

definition portfs_fill_dir_data :: "bool \<Rightarrow> filetable_entry \<Rightarrow> disk_filetable_entry \<Rightarrow> disk_filetable_entry" where
  "portfs_fill_dir_data little src dst =
     \<lparr>d_entry_ino = cpu_to_be little 4 (ino src), d_entry_mode = cpu_to_be little 2 (mode src),
      d_entry_size = cpu_to_be little 8 (size_in_bytes src),
      d_entry_union = overwrite (overwrite (d_entry_union dst)
         0 (cpu_bytes little 4 (cpu_to_be little 4 (dir_block (dir_u src)))))
         4 (cpu_bytes little 4 (cpu_to_be little 4 (parent_dir_ino (dir_u src))))\<rparr>"

text \<open>The images of the indirect extents and of the directory entries; no access beyond \<open>count\<close>.\<close>

fun extents_image :: "bool \<Rightarrow> nat \<Rightarrow> extent list \<Rightarrow> u8 list option" where
  "extents_image little 0 es = Some []"
| "extents_image little (Suc n) [] = None"
| "extents_image little (Suc n) (e # es) = do {
     bs \<leftarrow> extents_image little n es;
     Some (disk_extent_bytes little \<lparr>dx_start_block = cpu_to_be little 4 (start_block e),
             dx_length = cpu_to_be little 4 (ext_length e)\<rparr> @ bs) }"

fun dir_image :: "bool \<Rightarrow> nat \<Rightarrow> dir_entry list \<Rightarrow> u8 list option" where
  "dir_image little 0 es = Some []"
| "dir_image little (Suc n) [] = None"
| "dir_image little (Suc n) (e # es) = do {
     name \<leftarrow> strncpy MAX_NAME_LENGTH (de_name e);
     bs \<leftarrow> dir_image little n es;
     Some (disk_dir_entry_bytes little \<lparr>dde_name = name,
             dde_inode_number = be_to_cpu little 4 (inode_number e)\<rparr> @ bs) }"

text \<open>A write that has to be complete.\<close>

definition write_all :: "('a::type) kenv_scheme \<Rightarrow> u8 list \<Rightarrow> u64 \<Rightarrow> u8 list \<Rightarrow> (errno + unit) \<times> u8 list" where
  "write_all K st pos bs =
     (let (r, st) = kernel_write K st pos bs
      in (case r of Inl e \<Rightarrow> Inl e | Inr n \<Rightarrow> if n \<noteq> of_nat (length bs) then Inl EIO else Inr (), st))"

definition portfs_write_file_data ::
    "('a::type) kenv_scheme \<Rightarrow> u8 list \<Rightarrow> portfs_superblock \<Rightarrow> filetable_entry \<Rightarrow>
     ((errno + unit) \<times> u8 list) option" where
  "portfs_write_file_data K st psb src =
     (if unat (extent_count (file_u src)) < DIRECT_EXTENTS \<or> extents_block (file_u src) = 0 \<or>
         indirect_extents src = Null
      then Some (Inr (), st)
      else if \<not> kmalloc_ok K Site_extents_image then Some (Inl ENOMEM, st)
      else do {
        es \<leftarrow> deref (indirect_extents src);
        bs \<leftarrow> extents_image (little_endian K) (unat (extent_count (file_u src)) - DIRECT_EXTENTS) es;
        Some (write_all K st (ucast (extents_block (file_u src) * block_size psb)) bs) })"

definition portfs_write_dir_data ::
    "('a::type) kenv_scheme \<Rightarrow> u8 list \<Rightarrow> portfs_superblock \<Rightarrow> filetable_entry \<Rightarrow>
     ((errno + unit) \<times> u8 list) option" where
  "portfs_write_dir_data K st psb src =
     (if dir_block (dir_u src) = 0 \<or> dir_entries src = Null then Some (Inr (), st)
      else if \<not> kmalloc_ok K Site_dir_image then Some (Inl ENOMEM, st)
      else do {
        es \<leftarrow> deref (dir_entries src);
        bs \<leftarrow> dir_image (little_endian K) (get_max_dir_entries psb) es;
        Some (write_all K st (ucast (dir_block (dir_u src) * block_size psb)) bs) })"

text \<open>
  One entry of the table: its image over what the buffer holds, and its own data.  A free entry leaves
  the buffer alone, and the results of writing the data are ignored.
\<close>

definition write_entry ::
    "('a::type) kenv_scheme \<Rightarrow> portfs_superblock \<Rightarrow> filetable_entry \<Rightarrow> disk_filetable_entry \<Rightarrow> u8 list \<Rightarrow>
     (disk_filetable_entry \<times> u8 list) option" where
  "write_entry K psb src dst st =
     (if mode src AND S_IFMT = S_IFREG then do {
        dst \<leftarrow> portfs_fill_file_data (little_endian K) src dst;
        (_, st) \<leftarrow> portfs_write_file_data K st psb src;
        Some (dst, st) }
      else if mode src AND S_IFMT = S_IFDIR then do {
        let dst = portfs_fill_dir_data (little_endian K) src dst;
        (_, st) \<leftarrow> portfs_write_dir_data K st psb src;
        Some (dst, st) }
      else Some (dst, st))"

text \<open>The inner loop, which fills the buffer: the next index, the number of entries, and the buffer.\<close>

abbreviation BUF_ENTRIES :: nat where
  "BUF_ENTRIES \<equiv> WRITE_BUFFER_SIZE div 52"

function fill_buffer ::
    "('a::type) kenv_scheme \<Rightarrow> portfs_superblock \<Rightarrow> nat \<Rightarrow> nat \<Rightarrow> (nat \<Rightarrow> disk_filetable_entry) \<Rightarrow> u8 list \<Rightarrow>
     (nat \<times> nat \<times> (nat \<Rightarrow> disk_filetable_entry) \<times> u8 list) option" where
  "fill_buffer K psb i curr_entries buf st =
     (if curr_entries < BUF_ENTRIES \<and> i < unat (max_file_count psb) then do {
        src \<leftarrow> array_get (filetable psb) i;
        (dst, st) \<leftarrow> write_entry K psb src (buf curr_entries) st;
        fill_buffer K psb (Suc i) (Suc curr_entries) (buf(curr_entries := dst)) st }
      else Some (i, curr_entries, buf, st))"
  by pat_completeness auto
termination
  by (relation "measure (\<lambda>(K, psb, i, c, buf, st). unat (max_file_count psb) - i)") auto

declare fill_buffer.simps [simp del]

lemma fill_buffer_index:
  "fill_buffer K psb i c buf st = Some (i', c', buf', st') \<Longrightarrow> i' - i = c' - c \<and> i \<le> i' \<and> c \<le> c'"
proof (induction K psb i c buf st rule: fill_buffer.induct)
  case (1 K psb i c buf st)
  show ?case
  proof (cases "c < BUF_ENTRIES \<and> i < unat (max_file_count psb)")
    case True
    with "1.prems" obtain src dst st1 where step: "array_get (filetable psb) i = Some src"
        "write_entry K psb src (buf c) st = Some (dst, st1)"
        "fill_buffer K psb (Suc i) (Suc c) (buf(c := dst)) st1 = Some (i', c', buf', st')"
      by (subst (asm) fill_buffer.simps) (auto split: bind_splits)
    from "1.IH" [OF True step(1,2) refl step(3)] show ?thesis by auto
  next
    case False
    with "1.prems" show ?thesis by (subst (asm) fill_buffer.simps) auto
  qed
qed

lemma fill_buffer_progress:
  assumes "fill_buffer K psb i 0 buf st = Some (i', c', buf', st')" and "i < unat (max_file_count psb)"
  shows "i < i'"
  using assms fill_buffer_index
  by (subst (asm) fill_buffer.simps) (fastforce split: if_splits bind_splits)

definition zero_disk_entry :: disk_filetable_entry where
  "zero_disk_entry = \<lparr>d_entry_ino = 0, d_entry_mode = 0, d_entry_size = 0, d_entry_union = replicate 38 0\<rparr>"

function write_table_loop ::
    "('a::type) kenv_scheme \<Rightarrow> portfs_superblock \<Rightarrow> nat \<Rightarrow> (nat \<Rightarrow> disk_filetable_entry) \<Rightarrow> u64 \<Rightarrow> u8 list \<Rightarrow>
     ((errno + unit) \<times> u8 list) option" where
  "write_table_loop K psb i buf current_offset st =
     (if i < unat (max_file_count psb) then do {
        (i', curr_entries, buf, st) \<leftarrow> fill_buffer K psb i 0 buf st;
        let bs = concat (map (\<lambda>j. disk_entry_bytes (little_endian K) (buf j)) [0..<curr_entries]);
        (case kernel_write K st current_offset bs of
           (r, st) \<Rightarrow>
             if r \<noteq> Inr (of_nat (length bs)) then Some (Inl EIO, st)
             else write_table_loop K psb i' (\<lambda>j. if j < curr_entries then zero_disk_entry else buf j)
                    (current_offset + of_nat (length bs)) st) }
      else Some (Inr (), st))"
  by pat_completeness auto
termination
proof (relation "measure (\<lambda>(K, psb, i, buf, off, st). unat (max_file_count psb) - i)", goal_cases)
  case (2 K psb i buf off st z i' z1 c z2 buf' st1 bs r st2)
  then show ?case using fill_buffer_progress [of K psb i buf st i' c buf' st1] by simp
qed simp

declare write_table_loop.simps [simp del]

definition portfs_write_filetable ::
    "('a::type) sync_env_scheme \<Rightarrow> u8 list \<Rightarrow> portfs_superblock \<Rightarrow> ((errno + unit) \<times> u8 list) option" where
  "portfs_write_filetable K st psb =
     (if \<not> kmalloc_ok K Site_table_image then Some (Inl ENOMEM, st)
      else write_table_loop K psb 0 (fresh_disk_entry K) (ucast (filetable_start psb * block_size psb)) st)"

text \<open>The loop of \<open>portfs_write_block_bitmap\<close>; \<open>None\<close> also where it would not end.\<close>

partial_function (option) write_bitmap_loop ::
    "('a::type) kenv_scheme \<Rightarrow> u8 list \<Rightarrow> nat \<Rightarrow> u64 \<Rightarrow> u64 \<Rightarrow> u8 list \<Rightarrow> ((errno + unit) \<times> u8 list) option" where
  "write_bitmap_loop K bm bitmap_offset file_offset remaining_bytes st =
     (if remaining_bytes = 0 then Some (Inr (), st)
      else
        let bytes_to_write = min (of_nat WRITE_BUFFER_SIZE) remaining_bytes
        in if length bm < bitmap_offset + unat bytes_to_write then None
           else (case kernel_write K st file_offset (take (unat bytes_to_write) (drop bitmap_offset bm)) of
               (Inl e, st) \<Rightarrow> Some (Inl e, st)
             | (Inr bytes_written, st) \<Rightarrow>
                 if bytes_written < bytes_to_write then Some (Inl EIO, st)
                 else write_bitmap_loop K bm (bitmap_offset + unat bytes_to_write)
                        (file_offset + bytes_written) (remaining_bytes - bytes_written) st))"

definition portfs_write_block_bitmap ::
    "('a::type) kenv_scheme \<Rightarrow> u8 list \<Rightarrow> portfs_superblock \<Rightarrow> ((errno + unit) \<times> u8 list) option" where
  "portfs_write_block_bitmap K st psb =
     write_bitmap_loop K (block_bitmap psb) 0 (ucast (block_bitmap_start psb * block_size psb))
       (ucast (block_bitmap_size psb * block_size psb)) st"

definition portfs_sync_fs ::
    "('a::type) sync_env_scheme \<Rightarrow> u8 list \<Rightarrow> portfs_superblock \<Rightarrow> ((errno + unit) \<times> u8 list) option" where
  "portfs_sync_fs K st psb =
     (case portfs_sync_superblock K st psb of
        (Inl e, st) \<Rightarrow> Some (Inl e, st)
      | (Inr _, st) \<Rightarrow> do {
          (r, st) \<leftarrow> portfs_write_filetable K st psb;
          (case r of
             Inl e \<Rightarrow> Some (Inl e, st)
           | Inr _ \<Rightarrow> do {
               (r, st) \<leftarrow> portfs_write_block_bitmap K st psb;
               (case r of
                  Inl e \<Rightarrow> Some (Inl e, st)
                | Inr _ \<Rightarrow> Some (vfs_fsync K, st)) }) })"

end
