(* ===== verification/Mount.thy ===== *)
theory Mount
  imports Inode_Spec Sync
begin

text \<open>
  Mounting and unmounting: the second half of \<open>kernel/super.c\<close> and \<open>kernel/storage.c\<close>.  The memory of
  \<open>kmalloc\<close> and \<open>vmalloc\<close> is not initialised; what it holds is a parameter, and so are the calls that
  open the storage file and make the root inode and its dentry.
\<close>

section \<open>Operations\<close>

record mount_env = sync_env +
  fresh_super :: portfs_superblock
  fresh_super_byte :: "nat \<Rightarrow> u8"
  fresh_entry :: "nat \<Rightarrow> filetable_entry"
  fresh_bitmap_byte :: "nat \<Rightarrow> u8"
  filp_open :: "u8 list \<Rightarrow> errno + u8 list"
  new_inode_ok :: bool
  d_make_root_ok :: bool

text \<open>\<open>vmalloc\<close> fails for a size of 0.\<close>

definition vmalloc_ok :: "('a::type) kenv_scheme \<Rightarrow> alloc_site \<Rightarrow> nat \<Rightarrow> bool" where
  "vmalloc_ok K site n \<longleftrightarrow> n \<noteq> 0 \<and> kmalloc_ok K site"

definition portfs_storage_init :: "('a::type) mount_env_scheme \<Rightarrow> u8 list \<Rightarrow> errno + u8 list" where
  "portfs_storage_init K path = filp_open K path"

definition portfs_fill_superblock :: "bool \<Rightarrow> portfs_superblock \<Rightarrow> disk_superblock \<Rightarrow> portfs_superblock" where
  "portfs_fill_superblock little msb dsb = msb\<lparr>
     magic_number := be_to_cpu little 4 (ds_magic_number dsb), block_size := be_to_cpu little 4 (ds_block_size dsb),
     total_blocks := be_to_cpu little 4 (ds_total_blocks dsb),
     block_bitmap_start := be_to_cpu little 4 (ds_block_bitmap_start dsb),
     block_bitmap_size := be_to_cpu little 4 (ds_block_bitmap_size dsb),
     filetable_start := be_to_cpu little 4 (ds_filetable_start dsb),
     filetable_size := be_to_cpu little 4 (ds_filetable_size dsb),
     data_start := be_to_cpu little 4 (ds_data_start dsb), checksum := be_to_cpu little 4 (ds_checksum dsb),
     max_file_count := be_to_cpu little 4 (ds_max_file_count dsb), filetable := [], block_bitmap := []\<rparr>"

text \<open>A short read goes unnoticed: the rest of the structure is what the memory held.\<close>

definition portfs_init_superblock :: "('a::type) mount_env_scheme \<Rightarrow> u8 list \<Rightarrow> errno + portfs_superblock" where
  "portfs_init_superblock K st =
     (if \<not> kmalloc_ok K Site_disk_super then Inl ENOMEM
      else (case kernel_read K st 0 60 of
          Inl e \<Rightarrow> Inl e
        | Inr bytes \<Rightarrow>
            if \<not> kmalloc_ok K Site_super then Inl ENOMEM
            else Inr (portfs_fill_superblock (little_endian K) (fresh_super K)
              (read_disk_superblock (little_endian K)
                 (bytes @ map (fresh_super_byte K) [length bytes..<60])))))"

text \<open>
  One entry of the table, over the memory it is put in.  The number of the inode is 32 bits wide but is
  converted as a 64-bit integer.
\<close>

definition load_extent :: "bool \<Rightarrow> disk_extent \<Rightarrow> extent" where
  "load_extent little x =
     \<lparr>start_block = be_to_cpu little 4 (dx_start_block x), ext_length = be_to_cpu little 4 (dx_length x)\<rparr>"

definition load_entry :: "bool \<Rightarrow> filetable_entry \<Rightarrow> disk_filetable_entry \<Rightarrow> filetable_entry" where
  "load_entry little entry d =
     (let entry = entry\<lparr>ino := ucast (be_to_cpu little 8 (ucast (d_entry_ino d) :: u64)),
            mode := be_to_cpu little 2 (d_entry_mode d), size_in_bytes := be_to_cpu little 8 (d_entry_size d)\<rparr>;
          entry =
            (if mode entry AND S_IFMT = S_IFREG then
               let df = union_file little (d_entry_union d)
               in entry\<lparr>file_u := \<lparr>extent_count = be_to_cpu little 2 (df_extent_count df),
                     extents_block = be_to_cpu little 4 (df_extents_block df),
                     direct_extents = map (load_extent little) (df_direct_extents df)\<rparr>\<rparr>
             else if mode entry AND S_IFMT = S_IFDIR then
               let dd = union_dir little (d_entry_union d)
               in entry\<lparr>dir_u := \<lparr>dir_block = be_to_cpu little 4 (dd_dir_block dd),
                     parent_dir_ino = be_to_cpu little 4 (dd_parent_dir_ino dd)\<rparr>\<rparr>
             else entry)
      in entry\<lparr>indirect_extents := Null, dir_entries := Null\<rparr>)"

text \<open>The array on disk; an entry beyond the bytes that were read is outside the allocated memory.\<close>

definition disk_entry_at :: "bool \<Rightarrow> u8 list \<Rightarrow> nat \<Rightarrow> disk_filetable_entry option" where
  "disk_entry_at little bs i =
     (if 52 * Suc i \<le> length bs then Some (read_disk_entry little (take 52 (drop (52 * i) bs))) else None)"

fun load_entries ::
    "('a::type) mount_env_scheme \<Rightarrow> u8 list \<Rightarrow> nat \<Rightarrow> filetable_entry list option" where
  "load_entries K bs 0 = Some []"
| "load_entries K bs (Suc i) = do {
     entries \<leftarrow> load_entries K bs i;
     d \<leftarrow> disk_entry_at (little_endian K) bs i;
     Some (entries @ [load_entry (little_endian K) (fresh_entry K i) d]) }"

text \<open>A filetable entry takes 72 bytes in memory.\<close>

abbreviation ENTRY_SIZE :: nat where
  "ENTRY_SIZE \<equiv> 72"

definition portfs_init_filetable ::
    "('a::type) mount_env_scheme \<Rightarrow> u8 list \<Rightarrow> portfs_superblock \<Rightarrow> (errno + portfs_superblock) option" where
  "portfs_init_filetable K st msb =
     (let total_size = unat (filetable_size msb * block_size msb)
      in if \<not> vmalloc_ok K Site_disk_table total_size then Some (Inl ENOMEM)
         else if \<not> vmalloc_ok K Site_table (ENTRY_SIZE * unat (max_file_count msb)) then Some (Inl ENOMEM)
         else (case kernel_read K st (ucast (filetable_start msb * block_size msb)) (of_nat total_size) of
             Inl e \<Rightarrow> Some (Inl e)
           | Inr bs \<Rightarrow>
               if length bs \<noteq> total_size then Some (Inl EIO)
               else do {
                 entries \<leftarrow> load_entries K bs (unat (max_file_count msb));
                 Some (Inr (msb\<lparr>filetable := entries\<rparr>)) }))"

definition portfs_init_block_bitmap ::
    "('a::type) mount_env_scheme \<Rightarrow> u8 list \<Rightarrow> portfs_superblock \<Rightarrow> errno + portfs_superblock" where
  "portfs_init_block_bitmap K st msb =
     (let total_size = unat (block_bitmap_size msb * block_size msb)
      in if \<not> vmalloc_ok K Site_bitmap total_size then Inl ENOMEM
         else (case kernel_read K st (ucast (block_bitmap_start msb * block_size msb)) (of_nat total_size) of
             Inl e \<Rightarrow> Inl e
           | Inr bs \<Rightarrow> Inr (msb\<lparr>block_bitmap := bs @ map (fresh_bitmap_byte K) [length bs..<total_size]\<rparr>)))"

text \<open>\<open>strstr\<close>: the rest of the string from the first occurrence on.\<close>

fun strstr :: "u8 list \<Rightarrow> u8 list \<Rightarrow> u8 list option" where
  "strstr [] pat = (if pat = [] then Some [] else None)"
| "strstr (c # cs) pat = (if take (length pat) (c # cs) = pat then Some (c # cs) else strstr cs pat)"

text \<open>The bytes of \<open>path=\<close>, and the path, which stays what it was when the options have none.\<close>

definition path_key :: "u8 list" where
  "path_key = [112, 97, 116, 104, 61]"

definition path_of_options :: "u8 list \<Rightarrow> u8 list \<Rightarrow> u8 list" where
  "path_of_options options storage_path =
     (case strstr options path_key of
        Some path \<Rightarrow> take 255 (drop 5 path)
      | None \<Rightarrow> storage_path)"

definition portfs_init_fs_data ::
    "('a::type) mount_env_scheme \<Rightarrow> u8 list \<Rightarrow> u8 list \<Rightarrow> (errno + portfs_superblock) option" where
  "portfs_init_fs_data K options storage_path =
     (case portfs_storage_init K (path_of_options options storage_path) of
        Inl e \<Rightarrow> Some (Inl e)
      | Inr st \<Rightarrow>
          (case portfs_init_superblock K st of
             Inl e \<Rightarrow> Some (Inl e)
           | Inr msb \<Rightarrow> do {
               r \<leftarrow> portfs_init_filetable K st msb;
               Some (case r of Inl e \<Rightarrow> Inl e | Inr msb \<Rightarrow> portfs_init_block_bitmap K st msb) }))"

text \<open>The search for the root's entry: the number of entries is computed from the size in memory.\<close>

function fe_root_loop :: "filetable_entry list \<Rightarrow> nat \<Rightarrow> nat \<Rightarrow> nat option option" where
  "fe_root_loop ft num_entries i =
     (if i < num_entries then do {
        fe \<leftarrow> array_get ft i;
        if ino fe = 1 then Some (Some i) else fe_root_loop ft num_entries (Suc i) }
      else Some None)"
  by pat_completeness auto
termination
  by (relation "measure (\<lambda>(ft, n, i). n - i)") auto

declare fe_root_loop.simps [simp del]

definition portfs_get_fe_root :: "portfs_superblock \<Rightarrow> nat option option" where
  "portfs_get_fe_root psb =
     fe_root_loop (filetable psb) (unat (filetable_size psb * block_size psb) div ENTRY_SIZE) 0"

text \<open>The result of a mount: the root inode and the superblock.\<close>

definition portfs_fill_super ::
    "('a::type) mount_env_scheme \<Rightarrow> u8 list \<Rightarrow> u8 list \<Rightarrow> (errno + vinode \<times> portfs_superblock) option" where
  "portfs_fill_super K options storage_path = do {
     r \<leftarrow> portfs_init_fs_data K options storage_path;
     (case r of
        Inl e \<Rightarrow> Some (Inl e)
      | Inr psb \<Rightarrow>
          if \<not> new_inode_ok K then Some (Inl ENOMEM)
          else do {
            let root_inode = \<lparr>i_ino = 1, i_mode = S_IFDIR OR 0x1ED, i_size = 0, i_nlink = 1, i_private = None\<rparr>;
            file_entry \<leftarrow> portfs_get_fe_root psb;
            r \<leftarrow> (case file_entry of
               Some k \<Rightarrow> Some (Inr (k, psb))
             | None \<Rightarrow> do {
                 slot \<leftarrow> portfs_find_free_file_entry psb;
                 (case slot of
                    None \<Rightarrow> Some (Inl ENOSPC)
                  | Some k \<Rightarrow> do {
                      (_, psb) \<leftarrow> on_entry psb k (\<lambda>psb fe. Some ((), psb,
                         fe\<lparr>mode := i_mode root_inode, ino := ucast (i_ino root_inode), size_in_bytes := 0,
                            dir_u := (dir_u fe)\<lparr>parent_dir_ino := ucast (i_ino root_inode)\<rparr>\<rparr>));
                      Some (Inr (k, psb)) }) });
            Some (case r of
                    Inl e \<Rightarrow> Inl e
                  | Inr (k, psb) \<Rightarrow>
                      if d_make_root_ok K then Inr (root_inode\<lparr>i_private := Some k\<rparr>, psb) else Inl ENOMEM) }) }"

text \<open>
  Unmounting frees the indirect extents of every entry, then the table, the bitmap and the superblock;
  the entries of loaded directories are not freed.  The result is the new \<open>s_fs_info\<close>, NULL.
\<close>

definition portfs_put_super :: "portfs_superblock option \<Rightarrow> portfs_superblock option option" where
  "portfs_put_super s_fs_info =
     (case s_fs_info of
        None \<Rightarrow> Some None
      | Some psb \<Rightarrow> do {
          _ \<leftarrow> for_u32 0 (max_file_count psb)
                 (\<lambda>i s. do { fe \<leftarrow> array_get (filetable psb) (unat i); kfree (indirect_extents fe) }) ();
          Some None })"

definition portfs_evict_inode :: "vinode \<Rightarrow> vinode" where
  "portfs_evict_inode inode = inode\<lparr>i_private := None\<rparr>"

end
