(* ===== verification/Sync_Spec.thy ===== *)
theory Sync_Spec
  imports Mount
begin

text \<open>
  What a sync leaves on the storage, and what a mount makes of it.
\<close>

section \<open>Regions of the storage\<close>

definition region :: "u8 list \<Rightarrow> nat \<Rightarrow> nat \<Rightarrow> u8 list" where
  "region st p n = take n (drop p st)"

lemma length_region [simp]: "p + n \<le> length st \<Longrightarrow> length (region st p n) = n"
  by (simp add: region_def)

lemma region_overwrite:
  "p + length bs \<le> length st \<Longrightarrow> region (overwrite st p bs) p (length bs) = bs"
  by (simp add: region_def overwrite_def)

lemma region_overwrite_disjoint:
  assumes "q + length bs \<le> length st" and "p + n \<le> q \<or> q + length bs \<le> p" and "p + n \<le> length st"
  shows "region (overwrite st q bs) p n = region st p n"
  unfolding region_def
  by (rule nth_equalityI) (use assms in \<open>auto simp: nth_overwrite\<close>)

lemma region_region: "q + m \<le> n \<Longrightarrow> region (region st p n) q m = region st (p + q) m"
  by (simp add: region_def drop_take min_absorb1 add.commute)

lemma overwrite_overwrite:
  "p + length a + length b \<le> length st \<Longrightarrow>
   overwrite (overwrite st p a) (p + length a) b = overwrite st p (a @ b)"
  by (simp add: overwrite_def ac_simps)

text \<open>A region inside another one that was not changed.\<close>

lemma region_same:
  assumes "region st p n = region st' p n" and "p \<le> q" and "q + m \<le> p + n"
  shows "region st q m = region st' q m"
proof -
  have "q = p + (q - p)" and "(q - p) + m \<le> n" using assms(2,3) by simp_all
  then show ?thesis using region_region [of "q - p" m n] assms(1) by metis
qed

lemma field_overwrite:
  "p + length bs \<le> length u \<Longrightarrow> length bs = n \<Longrightarrow> field little p n (overwrite u p bs) = cpu_word little bs"
  using region_overwrite [of p bs u] by (simp add: field_def region_def)

lemma field_overwrite_disjoint:
  "q + length bs \<le> length u \<Longrightarrow> p + n \<le> q \<or> q + length bs \<le> p \<Longrightarrow> p + n \<le> length u \<Longrightarrow>
   field little p n (overwrite u q bs) = field little p n u"
  using region_overwrite_disjoint [of q bs u p n] by (simp add: field_def region_def)

section \<open>The image of an entry\<close>

text \<open>
  What an image has to hold for the entry to be read back: the extents in use, and the rest of the
  member of the union that the mode selects.
\<close>

definition image_of :: "bool \<Rightarrow> filetable_entry \<Rightarrow> disk_filetable_entry \<Rightarrow> bool" where
  "image_of little fe d \<longleftrightarrow>
     d_entry_ino d = cpu_to_be little 4 (ino fe) \<and> d_entry_mode d = cpu_to_be little 2 (mode fe) \<and>
     d_entry_size d = cpu_to_be little 8 (size_in_bytes fe) \<and>
     (S_ISREG (mode fe) \<longrightarrow>
        df_extent_count (union_file little (d_entry_union d)) = cpu_to_be little 2 (extent_count (file_u fe)) \<and>
        df_extents_block (union_file little (d_entry_union d)) = cpu_to_be little 4 (extents_block (file_u fe)) \<and>
        (\<forall>k < unat (extent_count (file_u fe)).
           df_direct_extents (union_file little (d_entry_union d)) ! k =
             \<lparr>dx_start_block = cpu_to_be little 4 (start_block (direct_extents (file_u fe) ! k)),
              dx_length = cpu_to_be little 4 (ext_length (direct_extents (file_u fe) ! k))\<rparr>)) \<and>
     (S_ISDIR (mode fe) \<longrightarrow>
        dd_dir_block (union_dir little (d_entry_union d)) = cpu_to_be little 4 (dir_block (dir_u fe)) \<and>
        dd_parent_dir_ino (union_dir little (d_entry_union d)) = cpu_to_be little 4 (parent_dir_ino (dir_u fe)))"

lemma cpu_word_cpu_to_be [simp]:
  "8 * n = LENGTH('a) \<Longrightarrow> cpu_word little (cpu_bytes little n (cpu_to_be little n w)) = cpu_to_be little n (w :: 'a::len word)"
  by (simp add: cpu_to_be_def)

text \<open>The loop over the direct extents writes one slot per extent and nothing in front of the slots.\<close>

lemma fill_extents_loop_run:
  assumes "unat (extent_count (file_u src)) \<le> DIRECT_EXTENTS" and "length (direct_extents (file_u src)) = DIRECT_EXTENTS"
    and "length u = 38" and "k \<le> unat (extent_count (file_u src))"
  shows "\<exists>u'. fill_extents_loop little src k u = Some u' \<and> length u' = 38 \<and>
    region u' 0 (6 + 8 * k) = region u 0 (6 + 8 * k) \<and>
    (\<forall>j. k \<le> j \<and> j < unat (extent_count (file_u src)) \<longrightarrow> region u' (6 + 8 * j) 8 =
       disk_extent_bytes little \<lparr>dx_start_block = cpu_to_be little 4 (start_block (direct_extents (file_u src) ! j)),
         dx_length = cpu_to_be little 4 (ext_length (direct_extents (file_u src) ! j))\<rparr>)"
  using assms(3,4)
proof (induction "unat (extent_count (file_u src)) - k" arbitrary: k u)
  case 0
  then show ?case by (subst fill_extents_loop.simps) auto
next
  case (Suc n)
  let ?e = "direct_extents (file_u src) ! k"
  let ?bs = "disk_extent_bytes little \<lparr>dx_start_block = cpu_to_be little 4 (start_block ?e),
    dx_length = cpu_to_be little 4 (ext_length ?e)\<rparr>"
  let ?u = "overwrite u (6 + 8 * k) ?bs"
  have k: "k < unat (extent_count (file_u src))" "k < DIRECT_EXTENTS" and n: "n = unat (extent_count (file_u src)) - Suc k"
    using Suc.hyps(2) assms(1) by simp_all
  have fits: "6 + 8 * k + length ?bs \<le> length u" using k(2) Suc.prems(1) by simp
  obtain u' where u': "fill_extents_loop little src (Suc k) ?u = Some u'" "length u' = 38"
      "region u' 0 (6 + 8 * Suc k) = region ?u 0 (6 + 8 * Suc k)"
      "\<forall>j. Suc k \<le> j \<and> j < unat (extent_count (file_u src)) \<longrightarrow> region u' (6 + 8 * j) 8 =
       disk_extent_bytes little \<lparr>dx_start_block = cpu_to_be little 4 (start_block (direct_extents (file_u src) ! j)),
         dx_length = cpu_to_be little 4 (ext_length (direct_extents (file_u src) ! j))\<rparr>"
    using Suc.hyps(1) [OF n, of ?u] Suc.prems(1) k fits by auto
  have "region u' 0 (6 + 8 * k) = region ?u 0 (6 + 8 * k)" "region u' (6 + 8 * k) 8 = region ?u (6 + 8 * k) 8"
    by (rule region_same [OF u'(3)]; simp)+
  moreover have "region ?u 0 (6 + 8 * k) = region u 0 (6 + 8 * k)"
    by (rule region_overwrite_disjoint [OF fits]) (use fits in auto)
  moreover have "region ?u (6 + 8 * k) 8 = ?bs"
    using region_overwrite [OF fits] by simp
  moreover have "j = k \<or> Suc k \<le> j" if "k \<le> j" for j using that by auto
  ultimately show ?case
    using u' k assms(2) by (subst fill_extents_loop.simps) (auto simp: array_get_in)
qed

lemma field_region: "field little p n bs = cpu_word little (region bs p n)"
  by (simp add: field_def region_def)

lemma disk_extent_fields:
  assumes "region u p 8 = disk_extent_bytes little x"
  shows "field little p 4 u = dx_start_block x" and "field little (p + 4) 4 u = dx_length x"
proof -
  have "region u p 4 = region (disk_extent_bytes little x) 0 4"
    "region u (p + 4) 4 = region (disk_extent_bytes little x) 4 4"
    using region_region [of 0 4 8 u p] region_region [of 4 4 8 u p] by (simp_all add: assms)
  then have "region u p 4 = cpu_bytes little 4 (dx_start_block x)"
    "region u (p + 4) 4 = cpu_bytes little 4 (dx_length x)"
    by (simp_all add: region_def disk_extent_bytes_def)
  then show "field little p 4 u = dx_start_block x" and "field little (p + 4) 4 u = dx_length x"
    by (simp_all add: field_region)
qed

lemma fill_file_data_run:
  assumes "S_ISREG (mode src)" and "unat (extent_count (file_u src)) \<le> DIRECT_EXTENTS"
    and "length (direct_extents (file_u src)) = DIRECT_EXTENTS" and "length (d_entry_union dst) = 38"
  shows "\<exists>d. portfs_fill_file_data little src dst = Some d \<and> length (d_entry_union d) = 38 \<and> image_of little src d"
proof -
  let ?c = "cpu_bytes little 2 (cpu_to_be little 2 (extent_count (file_u src)))"
  let ?b = "cpu_bytes little 4 (cpu_to_be little 4 (extents_block (file_u src)))"
  let ?u = "overwrite (overwrite (d_entry_union dst) 0 ?c) 2 ?b"
  have len: "length ?u = 38" using assms(4) by simp
  obtain u where u: "fill_extents_loop little src 0 ?u = Some u" "length u = 38" "region u 0 6 = region ?u 0 6"
      "\<forall>j < unat (extent_count (file_u src)). region u (6 + 8 * j) 8 =
       disk_extent_bytes little \<lparr>dx_start_block = cpu_to_be little 4 (start_block (direct_extents (file_u src) ! j)),
         dx_length = cpu_to_be little 4 (ext_length (direct_extents (file_u src) ! j))\<rparr>"
    using fill_extents_loop_run [OF assms(2,3) len, of 0 little] by auto
  have same: "field little 0 2 u = field little 0 2 ?u" "field little 2 4 u = field little 2 4 ?u"
    unfolding field_region by (rule arg_cong [OF region_same [OF u(3)]]; simp)+
  have "field little 0 2 u = cpu_to_be little 2 (extent_count (file_u src))"
    unfolding same using assms(4) by (subst field_overwrite_disjoint) (simp_all add: field_overwrite del: cpu_bytes_cpu_to_be)
  moreover have "field little 2 4 u = cpu_to_be little 4 (extents_block (file_u src))"
    unfolding same using assms(4) by (subst field_overwrite) (simp_all del: cpu_bytes_cpu_to_be)
  moreover have "field little (6 + 8 * j) 4 u = cpu_to_be little 4 (start_block (direct_extents (file_u src) ! j))"
    "field little (10 + 8 * j) 4 u = cpu_to_be little 4 (ext_length (direct_extents (file_u src) ! j))"
    if "j < unat (extent_count (file_u src))" for j
    using disk_extent_fields [of u "6 + 8 * j" little] u(4) that by (simp_all add: add.commute)
  ultimately show ?thesis
    using u(1,2) assms(1,2) not_REG_and_DIR [OF assms(1)]
    by (simp add: portfs_fill_file_data_def image_of_def union_file_def nth_append)
qed

lemma fill_dir_data_image:
  assumes "S_ISDIR (mode src)" and "length (d_entry_union dst) = 38"
  shows "length (d_entry_union (portfs_fill_dir_data little src dst)) = 38 \<and>
    image_of little src (portfs_fill_dir_data little src dst)"
proof -
  let ?b = "cpu_bytes little 4 (cpu_to_be little 4 (dir_block (dir_u src)))"
  let ?p = "cpu_bytes little 4 (cpu_to_be little 4 (parent_dir_ino (dir_u src)))"
  let ?u = "overwrite (overwrite (d_entry_union dst) 0 ?b) 4 ?p"
  have "field little 0 4 ?u = cpu_to_be little 4 (dir_block (dir_u src))"
    using assms(2) by (subst field_overwrite_disjoint) (simp_all add: field_overwrite del: cpu_bytes_cpu_to_be)
  moreover have "field little 4 4 ?u = cpu_to_be little 4 (parent_dir_ino (dir_u src))"
    using assms(2) by (subst field_overwrite) (simp_all del: cpu_bytes_cpu_to_be)
  moreover have "\<not> S_ISREG (mode src)" using assms(1) not_REG_and_DIR by blast
  ultimately show ?thesis
    using assms(2) by (simp add: portfs_fill_dir_data_def image_of_def union_dir_def)
qed

section \<open>The layout of the storage\<close>

text \<open>
  Superblock, file table, bitmap and data follow one another, and the bitmap in memory has the size of
  the one on the storage.
\<close>

definition layout_ok :: "portfs_superblock \<Rightarrow> u8 list \<Rightarrow> bool" where
  "layout_ok psb st \<longleftrightarrow> storage_ok psb st \<and> table_ok psb \<and> 0 < max_file_count psb \<and>
     60 \<le> unat (filetable_start psb) * unat (block_size psb) \<and>
     52 * unat (max_file_count psb) \<le> unat (filetable_size psb) * unat (block_size psb) \<and>
     unat (filetable_start psb) + unat (filetable_size psb) \<le> unat (block_bitmap_start psb) \<and>
     0 < block_bitmap_size psb \<and>
     unat (block_bitmap_start psb) + unat (block_bitmap_size psb) \<le> unat (data_start psb) \<and>
     data_start psb \<le> total_blocks psb \<and>
     length (block_bitmap psb) = unat (block_bitmap_size psb) * unat (block_size psb)"

text \<open>The places of the regions in bytes; the 32-bit products of the code do not wrap.\<close>

abbreviation table_pos :: "portfs_superblock \<Rightarrow> nat" where
  "table_pos psb \<equiv> unat (filetable_start psb) * unat (block_size psb)"
abbreviation table_bytes :: "portfs_superblock \<Rightarrow> nat" where
  "table_bytes psb \<equiv> unat (filetable_size psb) * unat (block_size psb)"
abbreviation bitmap_pos :: "portfs_superblock \<Rightarrow> nat" where
  "bitmap_pos psb \<equiv> unat (block_bitmap_start psb) * unat (block_size psb)"
abbreviation bitmap_bytes :: "portfs_superblock \<Rightarrow> nat" where
  "bitmap_bytes psb \<equiv> unat (block_bitmap_size psb) * unat (block_size psb)"
abbreviation data_pos :: "portfs_superblock \<Rightarrow> nat" where
  "data_pos psb \<equiv> unat (data_start psb) * unat (block_size psb)"

lemma layout_order:
  assumes "layout_ok psb st"
  shows "table_pos psb + table_bytes psb \<le> bitmap_pos psb" and "bitmap_pos psb + bitmap_bytes psb \<le> data_pos psb"
    and "data_pos psb \<le> length st" and "data_pos psb \<le> 2 ^ 32" and "length st < 2 ^ 63"
    and "0 < bitmap_bytes psb" and "0 < table_bytes psb" and "table_pos psb + 52 * unat (max_file_count psb) \<le> bitmap_pos psb"
proof -
  let ?b = "unat (block_size psb)"
  have le: "(unat (filetable_start psb) + unat (filetable_size psb)) * ?b \<le> bitmap_pos psb"
    "(unat (block_bitmap_start psb) + unat (block_bitmap_size psb)) * ?b \<le> data_pos psb"
    "data_pos psb \<le> unat (total_blocks psb) * ?b"
    using assms by (simp_all add: layout_ok_def word_le_nat_alt)
  then show order: "table_pos psb + table_bytes psb \<le> bitmap_pos psb" "bitmap_pos psb + bitmap_bytes psb \<le> data_pos psb"
    by (simp_all add: distrib_right)
  have st: "unat (total_blocks psb) * ?b \<le> length st" "unat (total_blocks psb) * ?b \<le> 2 ^ 32" "length st < 2 ^ 63"
    using assms by (simp_all add: layout_ok_def storage_ok_def addressable_def)
  with le(3) show "data_pos psb \<le> length st" "data_pos psb \<le> 2 ^ 32" by (meson le_trans)+
  show "length st < 2 ^ 63" by (rule st(3))
  show "0 < bitmap_bytes psb"
    using assms by (simp add: layout_ok_def storage_ok_def addressable_def word_less_nat_alt)
  have "52 * unat (max_file_count psb) \<le> table_bytes psb" "0 < unat (max_file_count psb)"
    using assms by (simp_all add: layout_ok_def word_less_nat_alt)
  then show "0 < table_bytes psb" "table_pos psb + 52 * unat (max_file_count psb) \<le> bitmap_pos psb"
    using order(1) by linarith+
qed

lemma layout_words:
  assumes "layout_ok psb st"
  shows "unat (filetable_start psb * block_size psb) = table_pos psb"
    and "unat (filetable_size psb * block_size psb) = table_bytes psb"
    and "unat (block_bitmap_start psb * block_size psb) = bitmap_pos psb"
    and "unat (block_bitmap_size psb * block_size psb) = bitmap_bytes psb"
proof -
  note l = layout_order [OF assms]
  have "60 \<le> table_pos psb" using assms by (simp add: layout_ok_def)
  with l have "table_pos psb < 2 ^ 32" "table_bytes psb < 2 ^ 32" "bitmap_pos psb < 2 ^ 32" "bitmap_bytes psb < 2 ^ 32"
    by linarith+
  then show "unat (filetable_start psb * block_size psb) = table_pos psb"
    and "unat (filetable_size psb * block_size psb) = table_bytes psb"
    and "unat (block_bitmap_start psb * block_size psb) = bitmap_pos psb"
    and "unat (block_bitmap_size psb * block_size psb) = bitmap_bytes psb"
    by (simp_all add: unat_mult_no_wrap)
qed

section \<open>Writing the table\<close>

text \<open>Writes to the data area leave the rest of the storage as it was.\<close>

definition meta_same :: "portfs_superblock \<Rightarrow> u8 list \<Rightarrow> u8 list \<Rightarrow> bool" where
  "meta_same psb st st' \<longleftrightarrow> length st' = length st \<and> region st' 0 (data_pos psb) = region st 0 (data_pos psb)"

lemma meta_same_refl [simp]: "meta_same psb st st"
  by (simp add: meta_same_def)

lemma meta_same_trans: "meta_same psb st st1 \<Longrightarrow> meta_same psb st1 st2 \<Longrightarrow> meta_same psb st st2"
  by (simp add: meta_same_def)

lemma meta_same_region:
  "meta_same psb st st' \<Longrightarrow> p + n \<le> data_pos psb \<Longrightarrow> region st' p n = region st p n"
  by (rule region_same [of _ 0 "data_pos psb"]) (simp_all add: meta_same_def)

lemma layout_ok_length: "length st' = length st \<Longrightarrow> layout_ok psb st' = layout_ok psb st"
  by (simp add: layout_ok_def storage_ok_def)

text \<open>
  The bytes of a directory's block, those of all directories, and the storages that differ in the data
  area only there.
\<close>

definition block_bytes :: "portfs_superblock \<Rightarrow> filetable_entry \<Rightarrow> nat set" where
  "block_bytes psb fe = (if S_ISDIR (mode fe) \<and> dir_block (dir_u fe) \<noteq> 0
     then {unat (dir_block (dir_u fe)) * unat (block_size psb)..<Suc (unat (dir_block (dir_u fe))) * unat (block_size psb)}
     else {})"

definition dir_bytes :: "portfs_superblock \<Rightarrow> nat set" where
  "dir_bytes psb = (\<Union>j < unat (max_file_count psb). block_bytes psb (filetable psb ! j))"

definition synced_bytes :: "portfs_superblock \<Rightarrow> nat set" where
  "synced_bytes psb = {..<data_pos psb} \<union> dir_bytes psb"

definition same_but :: "nat set \<Rightarrow> u8 list \<Rightarrow> u8 list \<Rightarrow> bool" where
  "same_but A st st' \<longleftrightarrow> length st' = length st \<and> (\<forall>a < length st. a \<notin> A \<longrightarrow> st' ! a = st ! a)"

lemma same_but_refl [simp]: "same_but A st st"
  by (simp add: same_but_def)

lemma same_but_trans: "same_but A st st1 \<Longrightarrow> same_but A st1 st2 \<Longrightarrow> same_but A st st2"
  by (simp add: same_but_def)

lemma same_but_mono: "same_but A st st' \<Longrightarrow> A \<subseteq> B \<Longrightarrow> same_but B st st'"
  by (auto simp: same_but_def)

lemma same_but_overwrite:
  "p + length bs \<le> length st \<Longrightarrow> {p..<p + length bs} \<subseteq> A \<Longrightarrow> same_but A st (overwrite st p bs)"
  by (auto simp: same_but_def nth_overwrite)

text \<open>A block of the data area can be written in place.\<close>

lemma write_data_block:
  assumes "kernel_ok K" and "layout_ok psb st" and "data_start psb \<le> b" and "b < total_blocks psb"
    and "length bs \<le> unat (block_size psb)"
  shows "\<exists>st'. write_all K st (ucast (b * block_size psb)) bs = (Inr (), st') \<and>
    st' = overwrite st (unat b * unat (block_size psb)) bs \<and>
    unat b * unat (block_size psb) + length bs \<le> length st \<and> meta_same psb st st'"
proof -
  let ?b = "unat (block_size psb)"
  have st: "unat (total_blocks psb) * ?b \<le> length st" "unat (total_blocks psb) * ?b \<le> 2 ^ 32" "length st < 2 ^ 63"
    "0 < ?b"
    using assms(2) by (simp_all add: layout_ok_def storage_ok_def addressable_def word_less_nat_alt)
  have "Suc (unat b) * ?b \<le> unat (total_blocks psb) * ?b"
    using assms(4) by (intro mult_le_mono1) (simp add: word_less_nat_alt)
  then have fits: "unat b * ?b + ?b \<le> length st" "unat b * ?b + ?b \<le> 2 ^ 32" using st(1,2) by simp_all
  then have word: "unat (b * block_size psb) = unat b * ?b" using st(4) by (intro unat_mult_no_wrap) simp
  have fits': "unat b * ?b + length bs \<le> length st" using fits(1) assms(5) by linarith
  have data: "data_pos psb \<le> unat b * ?b" using assms(3) by (intro mult_le_mono1) (simp add: word_le_nat_alt)
  have "write_all K st (ucast (b * block_size psb)) bs = (Inr (), overwrite st (unat b * ?b) bs)"
    using kernel_ok_write [OF assms(1) st(3), of "ucast (b * block_size psb)" bs] fits' word
    by (simp add: write_all_def)
  moreover have "meta_same psb st (overwrite st (unat b * ?b) bs)"
    using region_overwrite_disjoint [OF fits', of 0 "data_pos psb"] data fits' layout_order(3) [OF assms(2)]
    by (simp add: meta_same_def)
  ultimately show ?thesis using fits' by blast
qed

lemma dir_entries_fit: "68 * get_max_dir_entries psb \<le> unat (block_size psb)"
proof -
  have "get_max_dir_entries psb \<le> unat (block_size psb div 68)"
    by (simp add: get_max_dir_entries_def unsigned_ucast_eq take_bit_nat_less_eq_self)
  then show ?thesis by (simp add: unat_div)
qed

lemma strncpy_full: "length name = n \<Longrightarrow> \<exists>c. strncpy n name = Some c \<and> length c = n"
proof -
  assume n: "length name = n"
  have "n \<le> length (takeWhile (\<lambda>c. c \<noteq> 0) name) \<or> length (takeWhile (\<lambda>c. c \<noteq> 0) name) < length name"
    using length_takeWhile_le [of "\<lambda>c. c \<noteq> 0" name] n by linarith
  then show ?thesis by (simp add: strncpy_def Let_def)
qed

lemma dir_image_length:
  "(\<forall>e \<in> set es. length (de_name e) = MAX_NAME_LENGTH) \<Longrightarrow> length es = n \<Longrightarrow>
   \<exists>bs. dir_image little n es = Some bs \<and> length bs = 68 * n"
proof (induction es arbitrary: n)
  case (Cons e es)
  then obtain bs where "dir_image little (length es) es = Some bs" "length bs = 68 * length es" by auto
  moreover obtain c where "strncpy MAX_NAME_LENGTH (de_name e) = Some c" "length c = MAX_NAME_LENGTH"
    using strncpy_full [of "de_name e" MAX_NAME_LENGTH] Cons.prems(1) by auto
  ultimately show ?case using Cons.prems(2) by (auto simp: disk_dir_entry_bytes_def)
qed simp

text \<open>
  The entries a sync can write: regular files of at most four extents and directories, whose own blocks
  lie in the data area.
\<close>

definition in_data :: "portfs_superblock \<Rightarrow> u32 \<Rightarrow> bool" where
  "in_data psb b \<longleftrightarrow> b = 0 \<or> data_start psb \<le> b \<and> b < total_blocks psb"

definition entry_ready :: "portfs_superblock \<Rightarrow> filetable_entry \<Rightarrow> bool" where
  "entry_ready psb fe \<longleftrightarrow>
     (S_ISREG (mode fe) \<longrightarrow> entry_shape psb fe \<and> unat (extent_count (file_u fe)) \<le> DIRECT_EXTENTS \<and>
        in_data psb (extents_block (file_u fe))) \<and>
     (S_ISDIR (mode fe) \<longrightarrow> in_data psb (dir_block (dir_u fe)) \<and> dir_entries fe \<noteq> Dangling \<and>
        (\<forall>es. dir_entries fe = Live es \<longrightarrow> length es = get_max_dir_entries psb \<and>
           (\<forall>e \<in> set es. length (de_name e) = MAX_NAME_LENGTH)))"

definition in_use :: "filetable_entry \<Rightarrow> bool" where
  "in_use fe \<longleftrightarrow> S_ISREG (mode fe) \<or> S_ISDIR (mode fe)"

lemma write_file_data_run:
  assumes "kernel_ok K" and "layout_ok psb st" and "entry_ready psb fe" and "S_ISREG (mode fe)"
  shows "\<exists>r. portfs_write_file_data K st psb fe = Some (r, st)"
proof (cases "unat (extent_count (file_u fe)) < DIRECT_EXTENTS \<or> extents_block (file_u fe) = 0 \<or>
    indirect_extents fe = Null \<or> \<not> kmalloc_ok K Site_extents_image")
  case True
  then show ?thesis by (auto simp: portfs_write_file_data_def)
next
  case False
  have count: "unat (extent_count (file_u fe)) = DIRECT_EXTENTS" and ready: "entry_shape psb fe"
    and b: "data_start psb \<le> extents_block (file_u fe)" "extents_block (file_u fe) < total_blocks psb"
    using False assms(3,4) by (auto simp: entry_ready_def in_data_def)
  then obtain es where es: "indirect_extents fe = Live es"
    using False by (cases "indirect_extents fe") (auto simp: entry_shape_def)
  have "write_all K st (ucast (extents_block (file_u fe) * block_size psb)) [] = (Inr (), st)"
    using write_data_block [OF assms(1,2) b, of "[]"] by (auto simp: overwrite_def)
  then show ?thesis using False count es by (auto simp: portfs_write_file_data_def)
qed

lemma write_dir_data_run:
  assumes "kernel_ok K" and "layout_ok psb st" and "entry_ready psb fe" and "S_ISDIR (mode fe)"
  shows "\<exists>r st'. portfs_write_dir_data K st psb fe = Some (r, st') \<and> meta_same psb st st' \<and>
    same_but (block_bytes psb fe) st st'"
proof (cases "dir_block (dir_u fe) = 0 \<or> dir_entries fe = Null \<or> \<not> kmalloc_ok K Site_dir_image")
  case True
  then show ?thesis by (auto simp: portfs_write_dir_data_def)
next
  case False
  then obtain es where es: "dir_entries fe = Live es" "length es = get_max_dir_entries psb"
      "\<forall>e \<in> set es. length (de_name e) = MAX_NAME_LENGTH"
    using assms(3,4) by (cases "dir_entries fe") (auto simp: entry_ready_def)
  then obtain bs where bs: "dir_image (little_endian K) (get_max_dir_entries psb) es = Some bs"
      "length bs = 68 * get_max_dir_entries psb"
    using dir_image_length by blast
  have b: "data_start psb \<le> dir_block (dir_u fe)" "dir_block (dir_u fe) < total_blocks psb"
    using False assms(3,4) by (auto simp: entry_ready_def in_data_def)
  obtain st' where "write_all K st (ucast (dir_block (dir_u fe) * block_size psb)) bs = (Inr (), st')"
      "meta_same psb st st'" "st' = overwrite st (unat (dir_block (dir_u fe)) * unat (block_size psb)) bs"
      "unat (dir_block (dir_u fe)) * unat (block_size psb) + length bs \<le> length st"
    using write_data_block [OF assms(1,2) b, of bs] bs(2) dir_entries_fit [of psb] by auto
  moreover from this(3,4) have "same_but (block_bytes psb fe) st st'"
    using False assms(4) bs(2) dir_entries_fit [of psb]
    by (auto simp: block_bytes_def intro!: same_but_overwrite)
  ultimately show ?thesis using False es bs by (auto simp: portfs_write_dir_data_def)
qed

lemma write_entry_run:
  assumes "kernel_ok K" and "layout_ok psb st" and "entry_ready psb fe" and "length (d_entry_union dst) = 38"
  shows "\<exists>d st'. write_entry K psb fe dst st = Some (d, st') \<and> meta_same psb st st' \<and> same_but (block_bytes psb fe) st st' \<and>
    length (d_entry_union d) = 38 \<and> (if in_use fe then image_of (little_endian K) fe d else d = dst)"
proof -
  consider "S_ISREG (mode fe)" | "\<not> S_ISREG (mode fe)" "S_ISDIR (mode fe)" | "\<not> in_use fe"
    by (auto simp: in_use_def)
  then show ?thesis
  proof cases
    case 1
    obtain r where st': "portfs_write_file_data K st psb fe = Some (r, st)"
      using write_file_data_run [OF assms(1-3) 1] by blast
    obtain d where "portfs_fill_file_data (little_endian K) fe dst = Some d" "length (d_entry_union d) = 38"
        "image_of (little_endian K) fe d"
      using fill_file_data_run [OF 1 _ _ assms(4), of "little_endian K"] assms(3) 1
      by (auto simp: entry_ready_def entry_shape_def)
    with st' 1 show ?thesis by (simp add: write_entry_def in_use_def S_ISREG_def)
  next
    case 2
    obtain r st' where st': "portfs_write_dir_data K st psb fe = Some (r, st')" "meta_same psb st st'"
        "same_but (block_bytes psb fe) st st'"
      using write_dir_data_run [OF assms(1-3) 2(2)] by blast
    with fill_dir_data_image [OF 2(2) assms(4), of "little_endian K"] 2 show ?thesis
      by (simp add: write_entry_def in_use_def S_ISREG_def S_ISDIR_def)
  next
    case 3
    then show ?thesis using assms(4) by (simp add: write_entry_def in_use_def S_ISREG_def S_ISDIR_def)
  qed
qed

text \<open>
  What the image of a free entry is: whatever the buffer held, that is uninitialised memory in the first
  batch and zeros in the others.  \<open>Q\<close> is what is known of both.
\<close>

definition good_image :: "bool \<Rightarrow> (disk_filetable_entry \<Rightarrow> bool) \<Rightarrow> filetable_entry \<Rightarrow> disk_filetable_entry \<Rightarrow> bool" where
  "good_image little Q fe d \<longleftrightarrow> length (d_entry_union d) = 38 \<and> (if in_use fe then image_of little fe d else Q d)"

text \<open>One batch: the number of entries, and an image for each.\<close>

lemma fill_buffer_run:
  assumes K: "kernel_ok K" and "layout_ok psb st" and ready: "\<forall>j < unat (max_file_count psb). entry_ready psb (filetable psb ! j)"
    and "\<forall>j \<ge> c. length (d_entry_union (buf j)) = 38 \<and> Q (buf j)" and "i \<le> unat (max_file_count psb)" and "c \<le> BUF_ENTRIES"
  shows "\<exists>n buf' st'. fill_buffer K psb i c buf st = Some (i + n, c + n, buf', st') \<and> meta_same psb st st' \<and> same_but (dir_bytes psb) st st' \<and>
    (\<forall>j. j < c \<or> c + n \<le> j \<longrightarrow> buf' j = buf j) \<and>
    (\<forall>j < n. good_image (little_endian K) Q (filetable psb ! (i + j)) (buf' (c + j)))"
  using assms(2,4-6)
proof (induction "unat (max_file_count psb) - i" arbitrary: i c buf st)
  case 0
  then show ?case
    by (intro exI [of _ "0 :: nat"] exI [of _ buf] exI [of _ st]) (subst fill_buffer.simps, simp)
next
  case (Suc m)
  have i: "i < unat (max_file_count psb)" and m: "m = unat (max_file_count psb) - Suc i"
    using Suc.hyps(2) by simp_all
  show ?case
  proof (cases "c < BUF_ENTRIES")
    case False
    with Suc.prems show ?thesis
      by (intro exI [of _ "0 :: nat"] exI [of _ buf] exI [of _ st]) (subst fill_buffer.simps, simp)
  next
    case True
    have "i < length (filetable psb)" using i Suc.prems(1) by (simp add: layout_ok_def table_ok_def)
    then have src: "array_get (filetable psb) i = Some (filetable psb ! i)" by (rule array_get_in)
    obtain d st1 where d: "write_entry K psb (filetable psb ! i) (buf c) st = Some (d, st1)" "meta_same psb st st1"
        "same_but (block_bytes psb (filetable psb ! i)) st st1"
        "good_image (little_endian K) Q (filetable psb ! i) d"
      using write_entry_run [OF K Suc.prems(1) ready [rule_format, OF i], of "buf c"] Suc.prems(2)
      by (auto simp: good_image_def split: if_splits)
    have layout: "layout_ok psb st1"
      using d(2) Suc.prems(1) layout_ok_length [of st1 st psb] by (simp add: meta_same_def)
    have "same_but (dir_bytes psb) st st1"
      using same_but_mono [OF d(3), of "dir_bytes psb"] i by (auto simp: dir_bytes_def)
    note same1 = this
    have rest: "\<forall>j \<ge> Suc c. length (d_entry_union ((buf(c := d)) j)) = 38 \<and> Q ((buf(c := d)) j)"
      using Suc.prems(2) by simp
    obtain n buf' st' where rec: "fill_buffer K psb (Suc i) (Suc c) (buf(c := d)) st1 = Some (Suc i + n, Suc c + n, buf', st')"
        "meta_same psb st1 st'" "same_but (dir_bytes psb) st1 st'" "\<forall>j. j < Suc c \<or> Suc c + n \<le> j \<longrightarrow> buf' j = (buf(c := d)) j"
        "\<forall>j < n. good_image (little_endian K) Q (filetable psb ! (Suc i + j)) (buf' (Suc c + j))"
      using Suc.hyps(1) [OF m layout rest] i True by fastforce
    have "fill_buffer K psb i c buf st = Some (i + Suc n, c + Suc n, buf', st')"
      using i True src d(1) rec(1) by (subst fill_buffer.simps) simp
    moreover have "good_image (little_endian K) Q (filetable psb ! (i + j)) (buf' (c + j))" if "j < Suc n" for j
      using that d(4) rec(4,5) by (cases j) auto
    moreover have "buf' j = buf j" if "j < c \<or> c + Suc n \<le> j" for j using that rec(4) by auto
    ultimately show ?thesis
      using meta_same_trans [OF d(2) rec(2)] same_but_trans [OF same1 rec(3)]
      by (intro exI [of _ "Suc n"] exI [of _ buf'] exI [of _ st']) simp
  qed
qed

lemma region_concat:
  "\<forall>x \<in> set xs. length x = m \<Longrightarrow> j < length xs \<Longrightarrow> region (concat xs) (m * j) m = xs ! j"
proof (induction xs arbitrary: j)
  case (Cons x xs)
  then show ?case by (cases j) (auto simp: region_def)
qed simp

lemma length_concat_same: "\<forall>x \<in> set xs. length x = m \<Longrightarrow> length (concat xs) = m * length xs"
  by (induction xs) auto

text \<open>The images of the entries from index \<open>lo\<close> on are in their places.\<close>

definition table_images ::
    "bool \<Rightarrow> (disk_filetable_entry \<Rightarrow> bool) \<Rightarrow> portfs_superblock \<Rightarrow> u8 list \<Rightarrow> nat \<Rightarrow> nat \<Rightarrow> bool" where
  "table_images little Q psb st lo hi \<longleftrightarrow> (\<forall>j. lo \<le> j \<and> j < hi \<longrightarrow>
     (\<exists>d. region st (table_pos psb + 52 * j) 52 = disk_entry_bytes little d \<and> good_image little Q (filetable psb ! j) d))"

lemma table_images_keep:
  assumes "table_images little Q psb st lo hi" and "region st' 0 (table_pos psb + 52 * hi) = region st 0 (table_pos psb + 52 * hi)"
  shows "table_images little Q psb st' lo hi"
  unfolding table_images_def
proof (intro allI impI)
  fix j assume j: "lo \<le> j \<and> j < hi"
  have "region st' (table_pos psb + 52 * j) 52 = region st (table_pos psb + 52 * j) 52"
    by (rule region_same [OF assms(2)]) (use j in auto)
  with assms(1) j show "\<exists>d. region st' (table_pos psb + 52 * j) 52 = disk_entry_bytes little d \<and>
      good_image little Q (filetable psb ! j) d"
    by (simp add: table_images_def)
qed

lemma table_images_join:
  "table_images little Q psb st lo mid \<Longrightarrow> table_images little Q psb st mid hi \<Longrightarrow> table_images little Q psb st lo hi"
  unfolding table_images_def by (meson not_le)

lemma fill_buffer_bound:
  "fill_buffer K psb i c buf st = Some (i', c', buf', st') \<Longrightarrow> i \<le> unat (max_file_count psb) \<Longrightarrow>
   i' \<le> unat (max_file_count psb)"
proof (induction K psb i c buf st rule: fill_buffer.induct)
  case (1 K psb i c buf st)
  show ?case
  proof (cases "c < BUF_ENTRIES \<and> i < unat (max_file_count psb)")
    case True
    with "1.prems"(1) obtain src dst st1 where step: "array_get (filetable psb) i = Some src"
        "write_entry K psb src (buf c) st = Some (dst, st1)"
        "fill_buffer K psb (Suc i) (Suc c) (buf(c := dst)) st1 = Some (i', c', buf', st')"
      by (subst (asm) fill_buffer.simps) (auto split: bind_splits)
    from "1.IH" [OF True step(1,2) refl step(3)] True show ?thesis by simp
  next
    case False
    with "1.prems" show ?thesis by (subst (asm) fill_buffer.simps) auto
  qed
qed

text \<open>One batch written to its place.\<close>

lemma write_batch:
  assumes K: "kernel_ok K" and lay: "layout_ok psb st" and n: "i + n \<le> unat (max_file_count psb)"
    and img: "\<forall>j < n. good_image (little_endian K) Q (filetable psb ! (i + j)) (buf j)"
    and bs: "bs = concat (map (\<lambda>j. disk_entry_bytes (little_endian K) (buf j)) [0..<n])"
  shows "\<exists>st'. kernel_write K st (of_nat (table_pos psb + 52 * i)) bs = (Inr (of_nat (length bs)), st') \<and>
    length bs = 52 * n \<and> length st' = length st \<and> table_images (little_endian K) Q psb st' i (i + n) \<and>
    region st' 0 (table_pos psb + 52 * i) = region st 0 (table_pos psb + 52 * i) \<and>
    same_but (synced_bytes psb) st st'"
proof -
  let ?p = "table_pos psb + 52 * i" and ?f = "\<lambda>j. disk_entry_bytes (little_endian K) (buf j)"
  note l = layout_order [OF lay]
  have len: "\<forall>j < n. length (d_entry_union (buf j)) = 38" using img by (simp add: good_image_def)
  have blen: "length bs = 52 * n"
    unfolding bs using len by (subst length_concat_same [of _ 52]) auto
  have top: "?p + 52 * n \<le> bitmap_pos psb" using l(8) n by linarith
  then have fits: "?p + length bs \<le> length st" using l(1-3) blen by linarith
  have "?p \<le> 2 ^ 32" using top l(2,4) by linarith
  then have "unat (of_nat ?p :: u64) = ?p"
    by (intro unat_of_nat_small) simp
  then have w: "kernel_write K st (of_nat ?p) bs = (Inr (of_nat (length bs)), overwrite st ?p bs)"
    using kernel_ok_write [OF K l(5), of "of_nat ?p" bs] fits by simp
  have "table_images (little_endian K) Q psb (overwrite st ?p bs) i (i + n)"
    unfolding table_images_def
  proof (intro allI impI)
    fix j assume j: "i \<le> j \<and> j < i + n"
    then obtain k where k: "j = i + k" "k < n" using le_Suc_ex [of i j] by auto
    have "region bs (52 * k) 52 = ?f k"
      unfolding bs using k len by (subst region_concat) auto
    moreover have "region (overwrite st ?p bs) (table_pos psb + 52 * j) 52 = region bs (52 * k) 52"
      using region_region [of "52 * k" 52 "length bs" "overwrite st ?p bs" ?p] region_overwrite [OF fits] k blen
      by (simp add: algebra_simps)
    ultimately show "\<exists>d. region (overwrite st ?p bs) (table_pos psb + 52 * j) 52 = disk_entry_bytes (little_endian K) d \<and>
        good_image (little_endian K) Q (filetable psb ! j) d"
      using img [rule_format, of k] k by (intro exI [of _ "buf k"]) auto
  qed
  moreover have "region (overwrite st ?p bs) 0 ?p = region st 0 ?p"
    by (rule region_overwrite_disjoint [OF fits]) (use fits in auto)
  moreover have "same_but (synced_bytes psb) st (overwrite st ?p bs)"
    by (rule same_but_overwrite [OF fits]) (use top l(2) blen in \<open>auto simp: synced_bytes_def\<close>)
  ultimately show ?thesis using w blen fits by (intro exI [of _ "overwrite st ?p bs"]) simp
qed

lemma write_table_loop_run:
  assumes K: "kernel_ok K" and "layout_ok psb st" and ready: "\<forall>j < unat (max_file_count psb). entry_ready psb (filetable psb ! j)"
    and zero: "Q zero_disk_entry"
    and "\<forall>j. length (d_entry_union (buf j)) = 38 \<and> Q (buf j)" and "i \<le> unat (max_file_count psb)"
    and "off = of_nat (table_pos psb + 52 * i)"
  shows "\<exists>st'. write_table_loop K psb i buf off st = Some (Inr (), st') \<and> length st' = length st \<and>
    table_images (little_endian K) Q psb st' i (unat (max_file_count psb)) \<and>
    region st' 0 (table_pos psb + 52 * i) = region st 0 (table_pos psb + 52 * i) \<and>
    same_but (synced_bytes psb) st st'"
  using assms(2,5-7)
proof (induction "unat (max_file_count psb) - i" arbitrary: i buf off st rule: less_induct)
  case less
  let ?N = "unat (max_file_count psb)" and ?l = "little_endian K"
  show ?case
  proof (cases "i < ?N")
    case False
    with less.prems(3) show ?thesis
      by (intro exI [of _ st]) (subst write_table_loop.simps, auto simp: table_images_def)
  next
    case True
    obtain n buf' st1 where fill: "fill_buffer K psb i 0 buf st = Some (i + n, 0 + n, buf', st1)" "meta_same psb st st1"
        "same_but (dir_bytes psb) st st1"
        "\<forall>j. j < 0 \<or> 0 + n \<le> j \<longrightarrow> buf' j = buf j"
        "\<forall>j < n. good_image ?l Q (filetable psb ! (i + j)) (buf' (0 + j))"
      using fill_buffer_run [OF K less.prems(1) ready, of 0 buf Q i] less.prems(2) True by auto
    have progress: "i < i + n" using fill_buffer_progress [OF fill(1) True] .
    have top: "i + n \<le> ?N"
    proof (rule ccontr)
      assume "\<not> i + n \<le> ?N"
      with fill_buffer_bound [OF fill(1)] True show False by simp
    qed
    have lay1: "layout_ok psb st1"
      using fill(2) less.prems(1) layout_ok_length [of st1 st psb] by (simp add: meta_same_def)
    define bs where "bs = concat (map (\<lambda>j. disk_entry_bytes ?l (buf' j)) [0..<n])"
    obtain st2 where w: "kernel_write K st1 off bs = (Inr (of_nat (length bs)), st2)" "length bs = 52 * n"
        "length st2 = length st1" "table_images ?l Q psb st2 i (i + n)"
        "region st2 0 (table_pos psb + 52 * i) = region st1 0 (table_pos psb + 52 * i)"
        "same_but (synced_bytes psb) st1 st2"
      using write_batch [OF K lay1 top _ bs_def, of Q] fill(5) less.prems(4) by auto
    have lay2: "layout_ok psb st2" using lay1 w(3) layout_ok_length by blast
    define buf2 where "buf2 = (\<lambda>j. if j < n then zero_disk_entry else buf' j)"
    have "\<forall>j. length (d_entry_union (buf2 j)) = 38 \<and> Q (buf2 j)"
      using fill(4) less.prems(2) zero by (simp add: buf2_def) (simp add: zero_disk_entry_def)
    moreover have "off + of_nat (length bs) = of_nat (table_pos psb + 52 * (i + n))"
      using less.prems(4) w(2) by (simp add: algebra_simps)
    moreover have "?N - (i + n) < ?N - i" using progress True by simp
    ultimately obtain st' where rec: "write_table_loop K psb (i + n) buf2 (off + of_nat (length bs)) st2 = Some (Inr (), st')"
        "length st' = length st2" "table_images ?l Q psb st' (i + n) ?N"
        "region st' 0 (table_pos psb + 52 * (i + n)) = region st2 0 (table_pos psb + 52 * (i + n))"
        "same_but (synced_bytes psb) st2 st'"
      using less.hyps [of "i + n" st2 buf2] lay2 top by blast
    have "write_table_loop K psb i buf off st = Some (Inr (), st')"
      using True fill(1) w(1) rec(1) by (subst write_table_loop.simps) (simp add: bs_def [symmetric] buf2_def [symmetric])
    moreover have "table_images ?l Q psb st' i ?N"
      using table_images_join [OF table_images_keep [OF w(4) rec(4)] rec(3)] .
    moreover have "region st' 0 (table_pos psb + 52 * i) = region st 0 (table_pos psb + 52 * i)"
    proof -
      have "region st' 0 (table_pos psb + 52 * i) = region st2 0 (table_pos psb + 52 * i)"
        by (rule region_same [OF rec(4)]) auto
      also note w(5)
      also have "region st1 0 (table_pos psb + 52 * i) = region st 0 (table_pos psb + 52 * i)"
        by (rule meta_same_region [OF fill(2)]) (use layout_order [OF less.prems(1)] True in linarith)
      finally show ?thesis .
    qed
    moreover have "same_but (synced_bytes psb) st st'"
      using same_but_trans [OF same_but_trans [OF same_but_mono [OF fill(3)] w(6)] rec(5)]
      by (simp add: synced_bytes_def)
    ultimately show ?thesis using rec(2) w(3) fill(2) by (intro exI [of _ st']) (simp add: meta_same_def)
  qed
qed

section \<open>Writing the bitmap\<close>

lemma write_bitmap_loop_run:
  assumes "kernel_ok K" and "off + unat rem = length bm" and "unat foff + unat rem \<le> length st" and "length st < 2 ^ 63"
  shows "write_bitmap_loop K bm off foff rem st = Some (Inr (), overwrite st (unat foff) (drop off bm))"
  using assms(2-4)
proof (induction "unat rem" arbitrary: off foff rem st rule: less_induct)
  case less
  show ?case
  proof (cases "rem = 0")
    case True
    with less.prems show ?thesis by (subst write_bitmap_loop.simps) (simp add: overwrite_def)
  next
    case False
    let ?w = "min (of_nat WRITE_BUFFER_SIZE) rem :: u64"
    let ?c = "take (unat ?w) (drop off bm)" and ?st = "overwrite st (unat foff) (take (unat ?w) (drop off bm))"
    have w: "?w \<le> rem" "0 < ?w" using False by (auto simp: min_def word_gt_0 not_le)
    then have wn: "unat ?w \<le> unat rem" "0 < unat ?w" by (simp_all only: word_le_nat_alt word_less_nat_alt unat_0)
    have len: "length ?c = unat ?w" using less.prems(1) wn(1) by simp
    then have wr: "kernel_write K st foff ?c = (Inr ?w, ?st)"
      using kernel_ok_write [OF assms(1) less.prems(3), of foff ?c] less.prems(2) wn(1) by simp
    have rem: "unat (rem - ?w) = unat rem - unat ?w" by (rule unat_sub_no_wrap [OF w(1)])
    have foff: "unat (foff + ?w) = unat foff + unat ?w"
      by (rule unat_add_no_wrap) (use less.prems wn(1) in simp)
    have "write_bitmap_loop K bm (off + unat ?w) (foff + ?w) (rem - ?w) ?st =
        Some (Inr (), overwrite ?st (unat (foff + ?w)) (drop (off + unat ?w) bm))"
    proof (rule less.hyps)
      show "unat (rem - ?w) < unat rem" using rem wn by linarith
      show "off + unat ?w + unat (rem - ?w) = length bm" using rem less.prems(1) wn(1) by linarith
      have l: "length ?st = length st" using less.prems(2) len wn(1) by (intro length_overwrite) linarith
      show "unat (foff + ?w) + unat (rem - ?w) \<le> length ?st" unfolding rem foff l using less.prems(2) wn(1) by linarith
      show "length ?st < 2 ^ 63" unfolding l by (rule less.prems(3))
    qed
    moreover have "overwrite ?st (unat (foff + ?w)) (drop (off + unat ?w) bm) = overwrite st (unat foff) (drop off bm)"
    proof -
      have "overwrite ?st (unat foff + length ?c) (drop (off + unat ?w) bm) =
          overwrite st (unat foff) (?c @ drop (off + unat ?w) bm)"
        using less.prems(1,2) len wn(1) by (intro overwrite_overwrite) simp
      also have "?c @ drop (off + unat ?w) bm = drop off bm"
        using append_take_drop_id [of "unat ?w" "drop off bm"] by (simp add: add.commute)
      finally show ?thesis unfolding foff len .
    qed
    moreover have "\<not> length bm < off + unat ?w" using less.prems(1) wn(1) by simp
    ultimately show ?thesis
      using False wr by (subst write_bitmap_loop.simps) (simp add: Let_def)
  qed
qed

section \<open>A sync\<close>

text \<open>
  The storage after a sync: the superblock, an image for every entry of the table, and the bitmap.
\<close>

definition synced :: "bool \<Rightarrow> (disk_filetable_entry \<Rightarrow> bool) \<Rightarrow> portfs_superblock \<Rightarrow> u8 list \<Rightarrow> bool" where
  "synced little Q psb st \<longleftrightarrow>
     region st 0 60 = disk_superblock_bytes little (disk_super_of little psb) \<and>
     table_images little Q psb st 0 (unat (max_file_count psb)) \<and>
     region st (bitmap_pos psb) (bitmap_bytes psb) = block_bitmap psb"

definition fresh_ok :: "('a::type) sync_env_scheme \<Rightarrow> (disk_filetable_entry \<Rightarrow> bool) \<Rightarrow> bool" where
  "fresh_ok K Q \<longleftrightarrow> Q zero_disk_entry \<and>
     (\<forall>j. length (d_entry_union (fresh_disk_entry K j)) = 38 \<and> Q (fresh_disk_entry K j))"

lemma sync_fs_run:
  assumes K: "kernel_ok K" and mem: "memory_ok K" and fresh: "fresh_ok K Q" and "vfs_fsync K = Inr ()"
    and lay: "layout_ok psb st" and ready: "\<forall>j < unat (max_file_count psb). entry_ready psb (filetable psb ! j)"
  shows "\<exists>st'. portfs_sync_fs K st psb = Some (Inr (), st') \<and> length st' = length st \<and> synced (little_endian K) Q psb st' \<and>
    same_but (synced_bytes psb) st st'"
proof -
  let ?l = "little_endian K" and ?sb = "disk_superblock_bytes (little_endian K) (disk_super_of (little_endian K) psb)"
  note l = layout_order [OF lay] and words = layout_words [OF lay]
  have t60: "60 \<le> table_pos psb" using lay by (simp add: layout_ok_def)
  have st60: "0 + length ?sb \<le> length st" using l(1-3) t60 by simp
  have sb: "portfs_sync_superblock K st psb = (Inr (), overwrite st 0 ?sb)"
    using kernel_ok_write [OF K l(5), of 0 ?sb] st60 by (simp add: portfs_sync_superblock_def)
  let ?st1 = "overwrite st 0 ?sb"
  have lay1: "layout_ok psb ?st1" using lay layout_ok_length [of ?st1 st psb] st60 by simp
  have "ucast (filetable_start psb * block_size psb) = (of_nat (table_pos psb + 52 * 0) :: u64)"
    unfolding words(1) [symmetric] by (simp add: word_unat_eq_iff unat_of_nat_small less_trans [OF unat_u32_lt])
  then obtain st2 where st2: "portfs_write_filetable K ?st1 psb = Some (Inr (), st2)" "length st2 = length ?st1"
      "table_images ?l Q psb st2 0 (unat (max_file_count psb))" "region st2 0 (table_pos psb) = region ?st1 0 (table_pos psb)"
      "same_but (synced_bytes psb) ?st1 st2"
    using write_table_loop_run [OF K lay1 ready, of Q "fresh_disk_entry K" 0] fresh mem
    by (auto simp: portfs_write_filetable_def fresh_ok_def memory_ok_def)
  have len2: "length st2 = length st" using st2(2) st60 by simp
  let ?st3 = "overwrite st2 (bitmap_pos psb) (block_bitmap psb)"
  have bm: "length (block_bitmap psb) = bitmap_bytes psb" using lay by (simp add: layout_ok_def)
  have fits: "bitmap_pos psb + length (block_bitmap psb) \<le> length st2" using l(2,3) bm len2 by linarith
  have "portfs_write_block_bitmap K st2 psb = Some (Inr (), ?st3)"
    using write_bitmap_loop_run [OF K, of 0 "ucast (block_bitmap_size psb * block_size psb)" "block_bitmap psb"
        "ucast (block_bitmap_start psb * block_size psb)" st2] fits l(5) len2 bm
    by (simp add: portfs_write_block_bitmap_def words)
  then have "portfs_sync_fs K st psb = Some (Inr (), ?st3)"
    using sb st2(1) assms(4) by (simp add: portfs_sync_fs_def)
  moreover have len3: "length ?st3 = length st" using fits len2 by simp
  moreover have low: "region ?st3 0 (bitmap_pos psb) = region st2 0 (bitmap_pos psb)"
    by (rule region_overwrite_disjoint [OF fits]) (use fits in auto)
  have "region ?st3 0 60 = ?sb"
  proof -
    have "region ?st3 0 60 = region st2 0 60" by (rule region_same [OF low]) (use l t60 in auto)
    also have "\<dots> = region ?st1 0 60" by (rule region_same [OF st2(4)]) (use t60 in auto)
    also have "\<dots> = ?sb" using region_overwrite [OF st60] by simp
    finally show ?thesis .
  qed
  moreover have "table_images ?l Q psb ?st3 0 (unat (max_file_count psb))"
    by (rule table_images_keep [OF st2(3)], rule region_same [OF low]) (use l(8) in auto)
  moreover have "region ?st3 (bitmap_pos psb) (bitmap_bytes psb) = block_bitmap psb"
    using region_overwrite [OF fits] bm by simp
  moreover have "same_but (synced_bytes psb) st ?st3"
  proof (rule same_but_trans [OF same_but_trans])
    show "same_but (synced_bytes psb) st ?st1"
      by (rule same_but_overwrite [OF st60]) (use l t60 in \<open>auto simp: synced_bytes_def\<close>)
    show "same_but (synced_bytes psb) ?st1 st2" by (rule st2(5))
    show "same_but (synced_bytes psb) st2 ?st3"
      by (rule same_but_overwrite [OF fits]) (use l(2) bm in \<open>auto simp: synced_bytes_def\<close>)
  qed
  ultimately show ?thesis by (auto simp: synced_def)
qed

end
