(* ===== verification/Mount_Spec.thy ===== *)
theory Mount_Spec
  imports Sync_Spec
begin

text \<open>
  Mounting what a sync wrote: which parts of the file system come back, and that the root directory does
  not on a little-endian host.
\<close>

section \<open>Numbers of inodes\<close>

lemma le_word_zeros: "le_word (replicate k 0 @ bs) = push_bit (8 * k) (le_word bs :: 'a::len word)"
  by (induction k) (simp_all add: push_bit_push_bit ac_simps)

text \<open>
  The conversion of a 32-bit number as a 64-bit one: nothing of the number is left on a little-endian host.
\<close>

definition loaded_ino :: "bool \<Rightarrow> u32 \<Rightarrow> u32" where
  "loaded_ino little x = ucast (be_to_cpu little 8 (ucast x :: u64))"

lemma loaded_ino_little [simp]: "loaded_ino True x = 0"
proof -
  let ?w = "ucast x :: u64"
  have high: "drop_bit 32 ?w = 0" by (intro bit_word_eqI) (auto simp: bit_simps dest: bit_imp_le_length)
  have "le_bytes 8 ?w = le_bytes 4 ?w @ le_bytes 4 (drop_bit 32 ?w)"
    by (simp add: eval_nat_numeral)
  then have "rev (le_bytes 8 ?w) = replicate 4 0 @ rev (le_bytes 4 ?w)"
    unfolding high by (simp add: eval_nat_numeral)
  then have "be_to_cpu True 8 ?w = push_bit 32 (le_word (rev (le_bytes 4 ?w)))"
    using le_word_zeros [of 4 "rev (le_bytes 4 ?w)", where 'a = 64]
    by (simp add: be_to_cpu_def cpu_bytes_def be_word_def)
  then show ?thesis unfolding loaded_ino_def by (intro bit_word_eqI) (auto simp: bit_simps)
qed

lemma loaded_ino_big [simp]: "loaded_ino False (cpu_to_be False 4 x) = x"
proof -
  have "ucast (ucast x :: u64) = x" by (intro bit_word_eqI) (auto simp: bit_simps)
  then show ?thesis by (simp add: loaded_ino_def be_to_cpu_def cpu_bytes_def cpu_to_be_def cpu_word_def)
qed

section \<open>Reading the table\<close>

text \<open>What comes back of an entry.\<close>

definition restored_entry :: "bool \<Rightarrow> filetable_entry \<Rightarrow> filetable_entry \<Rightarrow> bool" where
  "restored_entry little fe fe' \<longleftrightarrow>
     mode fe' = mode fe \<and> size_in_bytes fe' = size_in_bytes fe \<and> ino fe' = (if little then 0 else ino fe) \<and>
     (S_ISREG (mode fe) \<longrightarrow> file_extents fe' = file_extents fe \<and>
        extent_count (file_u fe') = extent_count (file_u fe) \<and> extents_block (file_u fe') = extents_block (file_u fe)) \<and>
     (S_ISDIR (mode fe) \<longrightarrow> dir_u fe' = dir_u fe) \<and>
     indirect_extents fe' = Null \<and> dir_entries fe' = Null"

lemma load_entry_restores:
  assumes "image_of little fe d" and "in_use fe"
    and "S_ISREG (mode fe) \<longrightarrow> unat (extent_count (file_u fe)) \<le> DIRECT_EXTENTS \<and>
      length (direct_extents (file_u fe)) = DIRECT_EXTENTS"
  shows "restored_entry little fe (load_entry little fresh d)"
proof -
  have head: "be_to_cpu little 2 (d_entry_mode d) = mode fe" "be_to_cpu little 8 (d_entry_size d) = size_in_bytes fe"
    "loaded_ino little (d_entry_ino d) = (if little then 0 else ino fe)"
    using assms(1) by (cases little; simp add: image_of_def)+
  show ?thesis
  proof (cases "S_ISREG (mode fe)")
    case True
    let ?df = "union_file little (d_entry_union d)" and ?c = "unat (extent_count (file_u fe))"
    have count: "be_to_cpu little 2 (df_extent_count ?df) = extent_count (file_u fe)"
      "be_to_cpu little 4 (df_extents_block ?df) = extents_block (file_u fe)"
      using assms(1) True by (simp_all add: image_of_def)
    have "take ?c (map (load_extent little) (df_direct_extents ?df)) = take ?c (direct_extents (file_u fe))"
    proof (rule nth_equalityI)
      show "length (take ?c (map (load_extent little) (df_direct_extents ?df))) = length (take ?c (direct_extents (file_u fe)))"
        using assms(3) True by (simp add: union_file_def)
      fix k assume "k < length (take ?c (map (load_extent little) (df_direct_extents ?df)))"
      then have k: "k < ?c" "k < length (df_direct_extents ?df)" "k < length (direct_extents (file_u fe))"
        using assms(3) True by (simp_all add: union_file_def)
      with assms(1) True show "take ?c (map (load_extent little) (df_direct_extents ?df)) ! k = take ?c (direct_extents (file_u fe)) ! k"
        by (simp add: image_of_def load_extent_def)
    qed
    with assms(3) True count head not_REG_and_DIR [OF True] show ?thesis
      by (simp add: restored_entry_def load_entry_def loaded_ino_def S_ISREG_def S_ISDIR_def file_extents_def slots_def
          union_file_def Let_def)
  next
    case False
    then have dir: "S_ISDIR (mode fe)" using assms(2) by (simp add: in_use_def)
    then have "be_to_cpu little 4 (dd_dir_block (union_dir little (d_entry_union d))) = dir_block (dir_u fe)"
      "be_to_cpu little 4 (dd_parent_dir_ino (union_dir little (d_entry_union d))) = parent_dir_ino (dir_u fe)"
      using assms(1) by (simp_all add: image_of_def)
    with False dir head show ?thesis
      by (simp add: restored_entry_def load_entry_def loaded_ino_def S_ISREG_def S_ISDIR_def Let_def)
  qed
qed

text \<open>On a little-endian host every entry gets the number 0.\<close>

lemma load_entry_little: "ino (load_entry True fresh d) = 0"
  using loaded_ino_little [of "d_entry_ino d"]
  by (simp add: load_entry_def loaded_ino_def Let_def)

lemma load_entries_run:
  assumes "52 * n \<le> length bs"
  shows "load_entries K bs n = Some (map (\<lambda>i. load_entry (little_endian K) (fresh_entry K i)
    (read_disk_entry (little_endian K) (region bs (52 * i) 52))) [0..<n])"
  using assms
proof (induction n)
  case (Suc n)
  then show ?case by (simp add: disk_entry_at_def region_def)
qed simp

lemma load_entries_little:
  assumes "little_endian K" and "load_entries K bs n = Some ft"
  shows "length ft = n \<and> (\<forall>fe \<in> set ft. ino fe = 0)"
  using assms(2)
proof (induction n arbitrary: ft)
  case (Suc n)
  then obtain ft' d where "load_entries K bs n = Some ft'" "ft = ft' @ [load_entry True (fresh_entry K n) d]"
    using assms(1) by (auto split: bind_splits)
  with Suc.IH load_entry_little show ?case by auto
qed simp

section \<open>Mounting a synced storage\<close>

definition same_geometry :: "portfs_superblock \<Rightarrow> portfs_superblock \<Rightarrow> bool" where
  "same_geometry psb psb' \<longleftrightarrow>
     magic_number psb' = magic_number psb \<and> block_size psb' = block_size psb \<and>
     total_blocks psb' = total_blocks psb \<and> filetable_start psb' = filetable_start psb \<and>
     filetable_size psb' = filetable_size psb \<and> block_bitmap_start psb' = block_bitmap_start psb \<and>
     block_bitmap_size psb' = block_bitmap_size psb \<and> data_start psb' = data_start psb \<and>
     max_file_count psb' = max_file_count psb \<and> checksum psb' = checksum psb"

lemma init_superblock_run:
  assumes "kernel_ok K" and "memory_ok K" and "60 \<le> length st" and "length st < 2 ^ 63"
    and "region st 0 60 = disk_superblock_bytes (little_endian K) (disk_super_of (little_endian K) psb)"
  shows "\<exists>msb. portfs_init_superblock K st = Inr msb \<and> same_geometry psb msb"
proof -
  have "kernel_read K st 0 60 = Inr (region st 0 60)"
    using kernel_ok_read [OF assms(1,4), of 0 60] assms(3) by (simp add: region_def)
  then show ?thesis
    using assms(2,5)
    by (simp add: portfs_init_superblock_def memory_ok_def portfs_fill_superblock_def same_geometry_def disk_super_of_def)
qed

lemma same_geometry_layout:
  "same_geometry psb msb \<Longrightarrow> layout_ok psb st \<Longrightarrow>
   unat (filetable_start msb * block_size msb) = table_pos psb \<and>
   unat (filetable_size msb * block_size msb) = table_bytes psb \<and>
   unat (block_bitmap_start msb * block_size msb) = bitmap_pos psb \<and>
   unat (block_bitmap_size msb * block_size msb) = bitmap_bytes psb"
  using layout_words by (simp add: same_geometry_def)

lemma kernel_read_region:
  assumes "kernel_ok K" and "length st < 2 ^ 63" and "unat p + n \<le> length st"
  shows "kernel_read K st p (of_nat n) = Inr (region st (unat p) n)"
proof -
  have "unat (of_nat n :: u64) = n" by (rule unat_of_nat_small) (use assms(2,3) in simp)
  then show ?thesis using kernel_ok_read [OF assms(1,2), of p "of_nat n"] assms(3) by (simp add: region_def)
qed

text \<open>An entry in use is restored, a free one is what was on the storage.\<close>

definition comes_back ::
    "('a::type) mount_env_scheme \<Rightarrow> (disk_filetable_entry \<Rightarrow> bool) \<Rightarrow> nat \<Rightarrow> filetable_entry \<Rightarrow> filetable_entry \<Rightarrow> bool" where
  "comes_back K Q j fe fe' \<longleftrightarrow>
     (if in_use fe then restored_entry (little_endian K) fe fe'
      else \<exists>d. Q d \<and> fe' = load_entry (little_endian K) (fresh_entry K j) d)"

lemma init_filetable_run:
  assumes K: "kernel_ok K" and mem: "memory_ok K" and lay: "layout_ok psb st" and msb: "same_geometry psb msb"
    and img: "table_images (little_endian K) Q psb st 0 (unat (max_file_count psb))"
    and ready: "\<forall>j < unat (max_file_count psb). entry_ready psb (filetable psb ! j)"
  shows "\<exists>ft. portfs_init_filetable K st msb = Some (Inr (msb\<lparr>filetable := ft\<rparr>)) \<and>
    length ft = unat (max_file_count psb) \<and>
    (\<forall>j < length ft. comes_back K Q j (filetable psb ! j) (ft ! j))"
proof -
  let ?l = "little_endian K" and ?n = "unat (max_file_count psb)"
  note l = layout_order [OF lay] and g = same_geometry_layout [OF msb lay]
  define bs where "bs = region st (table_pos psb) (table_bytes psb)"
  have fits: "table_pos psb + table_bytes psb \<le> length st" using l(1-3) by linarith
  have len: "length bs = table_bytes psb" "52 * ?n \<le> length bs"
    using fits lay by (simp_all add: bs_def layout_ok_def)
  have rd: "kernel_read K st (ucast (filetable_start msb * block_size msb)) (of_nat (table_bytes psb)) = Inr bs"
    by (subst kernel_read_region [OF K l(5)]) (use g fits in \<open>simp_all add: bs_def\<close>)
  define ft where "ft = map (\<lambda>i. load_entry ?l (fresh_entry K i) (read_disk_entry ?l (region bs (52 * i) 52))) [0..<?n]"
  have "max_file_count msb = max_file_count psb" "0 < ?n"
    using msb lay by (simp_all add: same_geometry_def layout_ok_def word_less_nat_alt)
  then have "portfs_init_filetable K st msb = Some (Inr (msb\<lparr>filetable := ft\<rparr>))"
    using g rd mem l(7) len load_entries_run [OF len(2), of K]
    by (simp add: portfs_init_filetable_def vmalloc_ok_def memory_ok_def ft_def)
  moreover have "comes_back K Q j (filetable psb ! j) (ft ! j)" if j: "j < ?n" for j
  proof -
    obtain d where d: "region st (table_pos psb + 52 * j) 52 = disk_entry_bytes ?l d"
        "good_image ?l Q (filetable psb ! j) d"
      using img j by (auto simp: table_images_def)
    have "region bs (52 * j) 52 = disk_entry_bytes ?l d"
      using region_region [of "52 * j" 52 "table_bytes psb" st "table_pos psb"] d(1) j len by (simp add: bs_def)
    then have "ft ! j = load_entry ?l (fresh_entry K j) d" using d(2) j by (simp add: ft_def good_image_def)
    then show ?thesis
      using load_entry_restores [of ?l "filetable psb ! j" d "fresh_entry K j"] d(2) ready j
      by (auto simp: comes_back_def good_image_def entry_ready_def entry_shape_def)
  qed
  ultimately show ?thesis by (intro exI [of _ ft]) (simp add: ft_def)
qed

lemma init_block_bitmap_run:
  assumes "kernel_ok K" and "memory_ok K" and "layout_ok psb st" and "same_geometry psb msb"
    and "region st (bitmap_pos psb) (bitmap_bytes psb) = block_bitmap psb"
  shows "portfs_init_block_bitmap K st msb = Inr (msb\<lparr>block_bitmap := block_bitmap psb\<rparr>)"
proof -
  note l = layout_order [OF assms(3)] and g = same_geometry_layout [OF assms(4,3)]
  have "bitmap_pos psb + bitmap_bytes psb \<le> length st" using l(2,3) by linarith
  then have "kernel_read K st (ucast (block_bitmap_start msb * block_size msb)) (of_nat (bitmap_bytes psb)) = Inr (block_bitmap psb)"
    by (subst kernel_read_region [OF assms(1) l(5)]) (use g assms(5) in simp_all)
  moreover have "length (block_bitmap psb) = bitmap_bytes psb" using assms(3) by (simp add: layout_ok_def)
  ultimately show ?thesis
    using g assms(2) l(6) by (simp add: portfs_init_block_bitmap_def vmalloc_ok_def memory_ok_def)
qed

text \<open>The parts together: what a mount reads from a storage that holds a synced file system.\<close>

lemma mount_synced:
  assumes K: "kernel_ok K" "memory_ok K" and lay: "layout_ok psb st"
    and ready: "\<forall>j < unat (max_file_count psb). entry_ready psb (filetable psb ! j)"
    and synced: "synced (little_endian K) Q psb st" and st: "filp_open K (path_of_options options path) = Inr st"
  shows "\<exists>psb'. portfs_init_fs_data K options path = Some (Inr psb') \<and> same_geometry psb psb' \<and>
    block_bitmap psb' = block_bitmap psb \<and> length (filetable psb') = unat (max_file_count psb) \<and>
    (\<forall>j < length (filetable psb'). comes_back K Q j (filetable psb ! j) (filetable psb' ! j))"
proof -
  note l = layout_order [OF lay]
  have "60 \<le> length st" using l(1-3) lay by (simp add: layout_ok_def)
  then obtain msb where msb: "portfs_init_superblock K st = Inr msb" "same_geometry psb msb"
    using init_superblock_run [OF K _ l(5)] synced by (auto simp: synced_def)
  obtain ft where ft: "portfs_init_filetable K st msb = Some (Inr (msb\<lparr>filetable := ft\<rparr>))"
      "length ft = unat (max_file_count psb)"
      "\<forall>j < length ft. comes_back K Q j (filetable psb ! j) (ft ! j)"
    using init_filetable_run [OF K lay msb(2) _ ready, of Q] synced by (auto simp: synced_def)
  have "same_geometry psb (msb\<lparr>filetable := ft\<rparr>)" using msb(2) by (simp add: same_geometry_def)
  then have "portfs_init_block_bitmap K st (msb\<lparr>filetable := ft\<rparr>) =
      Inr (msb\<lparr>filetable := ft, block_bitmap := block_bitmap psb\<rparr>)"
    using init_block_bitmap_run [OF K lay, of "msb\<lparr>filetable := ft\<rparr>"] synced by (simp add: synced_def)
  with msb ft st show ?thesis
    by (simp add: portfs_init_fs_data_def portfs_storage_init_def same_geometry_def)
qed

end
