(* ===== verification/Block_Roundtrip.thy ===== *)
theory Block_Roundtrip
  imports Mount_Spec
begin

text \<open>
  The blocks a sync writes beside the table, and what is read from them again: the entries of a
  directory come back, the indirect extents of a file only on a big-endian host.
\<close>

section \<open>Directories\<close>

text \<open>A name in its buffer, padded with zeros: what \<open>strncpy\<close> makes of it, once and again.\<close>

definition padded :: "dir_entry \<Rightarrow> u8 list" where
  "padded e = name_of e @ replicate (MAX_NAME_LENGTH - length (name_of e)) 0"

lemma name_of_short: "entry_ok e \<Longrightarrow> length (name_of e) < MAX_NAME_LENGTH"
proof -
  assume e: "entry_ok e"
  have "takeWhile (\<lambda>c. c \<noteq> 0) (de_name e) \<noteq> de_name e"
    using e by (auto simp: entry_ok_def takeWhile_eq_all_conv)
  then have "length (takeWhile (\<lambda>c. c \<noteq> 0) (de_name e)) \<noteq> length (de_name e)"
    by (metis append_take_drop_id takeWhile_eq_take take_all_iff le_refl)
  then show ?thesis
    using e length_takeWhile_le [of "\<lambda>c. c \<noteq> 0" "de_name e"] by (simp add: entry_ok_def name_of_def)
qed

lemma takeWhile_padded: "takeWhile (\<lambda>c. c \<noteq> 0) (padded e) = name_of e"
proof (cases "MAX_NAME_LENGTH - length (name_of e)")
  case 0
  then show ?thesis by (simp add: padded_def name_of_def takeWhile_eq_all_conv)
next
  case (Suc n)
  then show ?thesis
    using takeWhile_terminated [of "name_of e" "replicate n 0"] set_takeWhileD
    by (fastforce simp: padded_def name_of_def)
qed

lemma strncpy_entry: "entry_ok e \<Longrightarrow> strncpy MAX_NAME_LENGTH (de_name e) = Some (padded e)"
  using name_of_short [of e] unfolding strncpy_def Let_def name_of_def [symmetric]
  by (simp add: entry_ok_def padded_def)

lemma strncpy_padded: "entry_ok e \<Longrightarrow> strncpy MAX_NAME_LENGTH (padded e) = Some (padded e)"
  using name_of_short [of e] unfolding strncpy_def Let_def takeWhile_padded by (simp add: padded_def)

lemma length_padded [simp]: "entry_ok e \<Longrightarrow> length (padded e) = MAX_NAME_LENGTH"
  using name_of_short [of e] by (simp add: padded_def)

lemma padded_last: "entry_ok e \<Longrightarrow> (padded e)[MAX_NAME_LENGTH - 1 := 0] = padded e"
  using name_of_short [of e] by (intro nth_equalityI) (auto simp: padded_def nth_list_update nth_append)

definition reloaded :: "dir_entry \<Rightarrow> dir_entry" where
  "reloaded e = \<lparr>de_name = padded e, inode_number = inode_number e\<rparr>"

lemma name_of_reloaded [simp]: "name_of (reloaded e) = name_of e"
  by (simp add: reloaded_def takeWhile_padded name_of_def [of "reloaded e"] name_of_def [of "\<lparr>de_name = padded e, inode_number = n\<rparr>" for n])

lemma inode_number_reloaded [simp]: "inode_number (reloaded e) = inode_number e"
  by (simp add: reloaded_def)

lemma entry_ok_reloaded: "entry_ok e \<Longrightarrow> entry_ok (reloaded e)"
  using name_of_short [of e] name_of_reloaded [of e] by (simp add: entry_ok_def reloaded_def) (simp add: padded_def)

lemma dir_map_reloaded: "dir_map (map reloaded es) = dir_map es"
  unfolding dir_map_def by (induction es) simp_all

lemma read_dir_image:
  assumes "\<forall>e \<in> set es. entry_ok e" and "dir_image little (length es) es = Some bs"
  shows "read_dir_entries (bs @ rest) (length es) = Some (map reloaded es)"
  using assms
proof (induction es arbitrary: bs)
  case (Cons e es)
  have e: "entry_ok e" using Cons.prems(1) by simp
  obtain bs' where bs': "dir_image little (length es) es = Some bs'"
      and bs: "bs = padded e @ be_bytes 4 (inode_number e) @ bs'"
    using Cons.prems(2) strncpy_entry [OF e]
    by (auto simp: disk_dir_entry_bytes_def cpu_to_be_eq_be_to_cpu [symmetric] split: bind_splits)
  have "read_dir_entry (padded e @ be_bytes 4 (inode_number e)) = Some (reloaded e)"
    using e strncpy_padded [OF e] padded_last [OF e] by (simp add: read_dir_entry_def reloaded_def)
  then show ?case
    using Cons.IH [OF _ bs'] Cons.prems(1) e bs by simp
qed simp

text \<open>A block of the data area that was written in place is read back with the written bytes in front.\<close>

lemma data_block_readback:
  assumes K: "kernel_ok K" and lay: "layout_ok psb st" and b: "data_start psb \<le> b" "b < total_blocks psb"
    and bs: "length bs \<le> unat (block_size psb)"
  shows "\<exists>st' rest. write_all K st (ucast (b * block_size psb)) bs = (Inr (), st') \<and> meta_same psb st st' \<and>
    kernel_read K st' (ucast (b * block_size psb)) (ucast (block_size psb)) = Inr (bs @ rest) \<and>
    length (bs @ rest) = unat (block_size psb)"
proof -
  let ?b = "unat (block_size psb)" and ?p = "unat b * unat (block_size psb)"
  obtain st' where st': "write_all K st (ucast (b * block_size psb)) bs = (Inr (), st')"
      "st' = overwrite st ?p bs" "?p + length bs \<le> length st" "meta_same psb st st'"
    using write_data_block [OF K lay b bs] by blast
  have lay': "layout_ok psb st'" using lay st'(4) layout_ok_length [of st' st psb] by (simp add: meta_same_def)
  have fits: "?p + ?b \<le> length st'"
    using write_data_block [OF K lay' b, of "replicate ?b 0"] by auto
  have "unat (total_blocks psb) * ?b \<le> 2 ^ 32" and "0 < ?b"
    using lay by (simp_all add: layout_ok_def storage_ok_def addressable_def word_less_nat_alt)
  moreover from this(2) have "?p < unat (total_blocks psb) * ?b"
    using b(2) by (simp add: word_less_nat_alt)
  ultimately have "?p < 2 ^ 32" by linarith
  then have word: "unat (b * block_size psb) = ?p" by (intro unat_mult_no_wrap) simp
  have "kernel_read K st' (ucast (b * block_size psb)) (ucast (block_size psb)) = Inr (region st' ?p ?b)"
    using kernel_ok_read [OF K layout_order(5) [OF lay'], of "ucast (b * block_size psb)" "ucast (block_size psb)"]
      fits word by (simp add: region_def)
  moreover have "take (length bs) (region st' ?p ?b) = bs"
    using region_overwrite [OF st'(3)] bs by (simp add: region_def st'(2))
  then obtain rest where "region st' ?p ?b = bs @ rest" by (metis append_take_drop_id)
  moreover have "length (region st' ?p ?b) = ?b" using fits by simp
  ultimately show ?thesis using st'(1,4) by (metis)
qed

lemma dir_block_roundtrip:
  assumes K: "kernel_ok K" "memory_ok K" and lay: "layout_ok psb st" and dir: "loaded_dir psb dir es"
    and b: "data_start psb \<le> dir_block (dir_u dir)" "dir_block (dir_u dir) < total_blocks psb"
    and fe': "fe' = dir\<lparr>dir_entries := Null\<rparr>"
  shows "\<exists>st'. portfs_write_dir_data K st psb dir = Some (Inr (), st') \<and> meta_same psb st st' \<and>
    portfs_load_dir_data K st' psb fe' = Some (Inr (), psb, fe'\<lparr>dir_entries := Live (map reloaded es)\<rparr>)"
proof -
  let ?n = "get_max_dir_entries psb" and ?b = "unat (block_size psb)"
  have es: "is_directory dir" "dir_entries dir = Live es" "length es = ?n" "\<forall>e \<in> set es. entry_ok e"
    using dir by (simp_all add: loaded_dir_def dir_ok_def)
  obtain bs where bs: "dir_image (little_endian K) ?n es = Some bs" "length bs = 68 * ?n"
    using dir_image_length [of es ?n] es(3,4) by (auto simp: entry_ok_def)
  have bs_le: "length bs \<le> ?b" using bs(2) dir_entries_fit [of psb] by simp
  have ds: "0 < data_start psb" using lay by (simp add: layout_ok_def storage_ok_def addressable_def)
  then have nz: "dir_block (dir_u dir) \<noteq> 0" using b(1) by auto
  obtain st' rest where st': "write_all K st (ucast (dir_block (dir_u dir) * block_size psb)) bs = (Inr (), st')"
      "meta_same psb st st'"
      "kernel_read K st' (ucast (dir_block (dir_u dir) * block_size psb)) (ucast (block_size psb)) = Inr (bs @ rest)"
      "length (bs @ rest) = ?b"
    using data_block_readback [OF K(1) lay b bs_le] by blast
  have "portfs_write_dir_data K st psb dir = Some (Inr (), st')"
    using es bs st'(1) nz K(2) by (simp add: portfs_write_dir_data_def memory_ok_def)
  moreover have "read_dir_entries (bs @ rest) ?n = Some (map reloaded es)"
    using read_dir_image [OF es(4), of "little_endian K" bs rest] bs(1) es(3) by simp
  then have "portfs_load_dir_data K st' psb fe' = Some (Inr (), psb, fe'\<lparr>dir_entries := Live (map reloaded es)\<rparr>)"
    using st'(3,4) K(2) nz es(1)
    by (simp add: portfs_load_dir_data_def memory_ok_def fe' get_dir_block_def is_directory_def Let_def)
  ultimately show ?thesis using st'(2) by blast
qed

section \<open>Indirect extents\<close>

text \<open>The extent a host reads where it wrote \<open>e\<close>: written big-endian, read without a conversion.\<close>

definition read_raw :: "bool \<Rightarrow> extent \<Rightarrow> extent" where
  "read_raw little e = \<lparr>start_block = cpu_to_be little 4 (start_block e), ext_length = cpu_to_be little 4 (ext_length e)\<rparr>"

lemma read_raw_big [simp]: "read_raw False e = e"
  by (simp add: read_raw_def cpu_to_be_def cpu_word_def)

definition extent_image :: "bool \<Rightarrow> extent \<Rightarrow> u8 list" where
  "extent_image little e = disk_extent_bytes little
     \<lparr>dx_start_block = cpu_to_be little 4 (start_block e), dx_length = cpu_to_be little 4 (ext_length e)\<rparr>"

lemma length_extent_image [simp]: "length (extent_image little e) = 8"
  by (simp add: extent_image_def)

lemma extents_image_concat:
  "n \<le> length es \<Longrightarrow> extents_image little n es = Some (concat (map (extent_image little) (take n es)))"
proof (induction n arbitrary: es)
  case (Suc n)
  then show ?case by (cases es) (simp_all add: extent_image_def)
qed simp

lemma raw_extents_nth:
  assumes "i < n" and "8 * Suc i \<le> length bs" and "region bs (8 * i) 8 = extent_image little e"
  shows "raw_extents little n bs ! i = read_raw little e"
proof -
  let ?buf = "bs @ replicate (8 * n - length bs) 0"
  have img: "region ?buf (8 * i) 8 = disk_extent_bytes little
      \<lparr>dx_start_block = cpu_to_be little 4 (start_block e), dx_length = cpu_to_be little 4 (ext_length e)\<rparr>"
    using assms(2,3) by (simp add: region_def extent_image_def)
  have "field little (8 * i) 4 ?buf = start_block (read_raw little e)"
    "field little (8 * i + 4) 4 ?buf = ext_length (read_raw little e)"
    using disk_extent_fields [OF img] by (simp_all add: read_raw_def)
  then show ?thesis using assms(1) by (simp add: raw_extents_def Let_def field_def)
qed

lemma extents_block_roundtrip:
  assumes K: "kernel_ok K" "memory_ok K" and lay: "layout_ok psb st"
    and fe: "indirect_extents fe = Live es" "length es = unat (block_size psb) div 8"
      "DIRECT_EXTENTS \<le> unat (extent_count (file_u fe))"
      "unat (extent_count (file_u fe)) \<le> DIRECT_EXTENTS + length es"
    and b: "data_start psb \<le> extents_block (file_u fe)" "extents_block (file_u fe) < total_blocks psb"
  shows "\<exists>st' es'. portfs_write_file_data K st psb fe = Some (Inr (), st') \<and> meta_same psb st st' \<and>
    portfs_alloc_indirect_extents K retry st' psb (fe\<lparr>indirect_extents := Null\<rparr>) =
      Some (Inr (), psb, fe\<lparr>indirect_extents := Live es'\<rparr>) \<and> length es' = length es \<and>
    (\<forall>i < unat (extent_count (file_u fe)) - DIRECT_EXTENTS. es' ! i = read_raw (little_endian K) (es ! i))"
proof -
  let ?l = "little_endian K" and ?n = "unat (extent_count (file_u fe)) - DIRECT_EXTENTS" and ?b = "unat (block_size psb)"
  define bs where "bs = concat (map (extent_image ?l) (take ?n es))"
  have n: "?n \<le> length es" using fe(4) by linarith
  have bs: "extents_image ?l ?n es = Some bs" "length bs = 8 * ?n"
    unfolding bs_def using n by (simp_all add: extents_image_concat length_concat_same [of _ 8])
  have "8 * ?n \<le> 8 * (?b div 8)" using fe(2,4) by (intro mult_le_mono2) linarith
  also have "\<dots> \<le> ?b" by simp
  finally have "length bs \<le> ?b" using bs(2) by simp
  then obtain st' rest where st': "write_all K st (ucast (extents_block (file_u fe) * block_size psb)) bs = (Inr (), st')"
      "meta_same psb st st'"
      "kernel_read K st' (ucast (extents_block (file_u fe) * block_size psb)) (ucast (block_size psb)) = Inr (bs @ rest)"
      "length (bs @ rest) = ?b"
    using data_block_readback [OF K(1) lay b] by blast
  have "0 < data_start psb" using lay by (simp add: layout_ok_def storage_ok_def addressable_def)
  then have nz: "extents_block (file_u fe) \<noteq> 0" using b(1) by auto
  define es' where "es' = raw_extents ?l (?b div 8) (bs @ rest)"
  have "portfs_write_file_data K st psb fe = Some (Inr (), st')"
    using fe(1,3) bs(1) st'(1) nz K(2) by (simp add: portfs_write_file_data_def memory_ok_def)
  moreover have "portfs_alloc_indirect_extents K retry st' psb (fe\<lparr>indirect_extents := Null\<rparr>) =
      Some (Inr (), psb, fe\<lparr>indirect_extents := Live es'\<rparr>)"
    using st'(3,4) K(2) nz by (simp add: portfs_alloc_indirect_extents_def memory_ok_def Let_def es'_def)
  moreover have "es' ! i = read_raw ?l (es ! i)" if "i < ?n" for i
  proof -
    have "region bs (8 * i) 8 = extent_image ?l (es ! i)"
      unfolding bs_def using that n by (subst region_concat) auto
    moreover have "region (bs @ rest) (8 * i) 8 = region bs (8 * i) 8" using that bs(2) by (simp add: region_def)
    ultimately show ?thesis
      unfolding es'_def using that n fe(2) bs(2) by (intro raw_extents_nth) auto
  qed
  ultimately show ?thesis using st'(2) fe(2) by (intro exI [of _ st'] exI [of _ es']) (simp add: es'_def)
qed

end
