(* ===== verification/Persistence.thy ===== *)
theory Persistence
  imports Block_Roundtrip
begin

text \<open>
  The properties of syncing and mounting, and a small file system on which they are instantiated.
\<close>

section \<open>Unmounting and mounting again\<close>

text \<open>The environment of a mount that opens the storage file with the bytes \<open>st\<close>.\<close>

abbreviation reopened :: "mount_env \<Rightarrow> u8 list \<Rightarrow> mount_env" where
  "reopened K st \<equiv> K\<lparr>filp_open := \<lambda>path. Inr st\<rparr>"

lemma reopened_simps [simp]:
  "kernel_ok (reopened K st) = kernel_ok K" "memory_ok (reopened K st) = memory_ok K"
  "comes_back (reopened K st) Q j fe fe' = comes_back K Q j fe fe'"
  by (simp_all add: kernel_ok_def storage_law_def memory_ok_def comes_back_def)

lemma sync_mount_run:
  assumes "kernel_ok K" and "memory_ok K" and "fresh_ok K Q" and "vfs_fsync K = Inr ()"
    and "layout_ok psb st" and "\<forall>j < unat (max_file_count psb). entry_ready psb (filetable psb ! j)"
  shows "\<exists>st' psb'. portfs_sync_fs K st psb = Some (Inr (), st') \<and> same_but (synced_bytes psb) st st' \<and>
    portfs_init_fs_data (reopened K st') options path = Some (Inr psb') \<and> same_geometry psb psb' \<and>
    block_bitmap psb' = block_bitmap psb \<and> length (filetable psb') = unat (max_file_count psb) \<and>
    (\<forall>j < length (filetable psb'). comes_back K Q j (filetable psb ! j) (filetable psb' ! j))"
proof -
  obtain st' where st': "portfs_sync_fs K st psb = Some (Inr (), st')" "length st' = length st"
      "synced (little_endian K) Q psb st'" "same_but (synced_bytes psb) st st'"
    using sync_fs_run [OF assms] by blast
  have lay: "layout_ok psb st'" using assms(5) st'(2) layout_ok_length by blast
  show ?thesis
    using mount_synced [of "reopened K st'" psb st' Q options path] assms(1,2,6) lay st' by fastforce
qed

text \<open>Files that do not share a block with a directory keep their bytes.\<close>

definition dir_block_set :: "filetable_entry \<Rightarrow> nat set" where
  "dir_block_set fe = (if S_ISDIR (mode fe) \<and> dir_block (dir_u fe) \<noteq> 0 then {unat (dir_block (dir_u fe))} else {})"

definition dir_blocks :: "portfs_superblock \<Rightarrow> nat set" where
  "dir_blocks psb = (\<Union>j < unat (max_file_count psb). dir_block_set (filetable psb ! j))"

lemma addrs_not_synced:
  assumes "storage_ok psb st" and "wf_file psb fe" and "file_blocks fe \<inter> dir_blocks psb = {}" and "a \<in> set (addrs psb fe)"
  shows "a < length st \<and> a \<notin> synced_bytes psb"
proof -
  let ?b = "unat (block_size psb)"
  have st: "addressable psb" "unat (total_blocks psb) * ?b \<le> length st" using assms(1) by (simp_all add: storage_ok_def)
  have b: "0 < ?b" using st(1) by (simp add: addressable_def word_less_nat_alt)
  have a: "data_pos psb \<le> a" "a < unat (total_blocks psb) * ?b" by (rule addrs_bound [OF st(1) assms(2,4)])+
  have "a div ?b \<notin> dir_blocks psb" using assms(3,4) st(1) by (auto simp: set_addrs)
  moreover have "a div ?b \<in> dir_block_set fe'" if "a \<in> block_bytes psb fe'" for fe'
  proof -
    have "S_ISDIR (mode fe') \<and> dir_block (dir_u fe') \<noteq> 0"
      and "unat (dir_block (dir_u fe')) * ?b \<le> a" "a < Suc (unat (dir_block (dir_u fe'))) * ?b"
      using that by (simp_all add: block_bytes_def split: if_splits)
    moreover from this b have "a div ?b = unat (dir_block (dir_u fe'))" by (intro div_nat_eqI) (simp_all add: ac_simps)
    ultimately show ?thesis by (simp add: dir_block_set_def)
  qed
  ultimately have "a \<notin> dir_bytes psb" by (auto simp: dir_bytes_def dir_blocks_def)
  with a st(2) show ?thesis by (simp add: synced_bytes_def)
qed

lemma contents_restored:
  assumes "storage_ok psb st" and "wf_file psb fe" and "file_blocks fe \<inter> dir_blocks psb = {}"
    and "same_but (synced_bytes psb) st st'" and "same_geometry psb psb'"
    and "file_extents fe' = file_extents fe" and "size_in_bytes fe' = size_in_bytes fe"
  shows "contents st' psb' fe' = contents st psb fe"
proof -
  have "seg psb' = seg psb" using assms(5) by (intro ext) (simp add: seg_def same_geometry_def)
  then have "addrs psb' fe' = addrs psb fe" using assms(6) by (simp add: addrs_def)
  moreover have "st' ! a = st ! a" if "a \<in> set (addrs psb fe)" for a
    using addrs_not_synced [OF assms(1-3) that] assms(4) by (simp add: same_but_def)
  ultimately show ?thesis
    unfolding contents_def assms(7) by (auto dest: in_set_takeD)
qed

lemma fe_root_loop_none:
  assumes "n \<le> length ft" and "\<forall>fe \<in> set ft. ino fe \<noteq> 1"
  shows "fe_root_loop ft n i = Some None"
proof (induction "n - i" arbitrary: i)
  case 0
  then show ?case by (subst fe_root_loop.simps) simp
next
  case (Suc m)
  then have "i < length ft" using assms(1) by simp
  then show ?case
    using Suc assms(2) by (subst fe_root_loop.simps) (simp add: array_get_in)
qed

text \<open>On a little-endian host, all entries that a mount reads have the inode number 0.\<close>

lemma init_fs_data_little:
  assumes "little_endian K" and "portfs_init_fs_data K options path = Some (Inr psb)"
  shows "table_ok psb \<and> (\<forall>fe \<in> set (filetable psb). ino fe = 0)"
proof -
  obtain st msb msb' where "portfs_init_filetable K st msb = Some (Inr msb')"
      and psb: "portfs_init_block_bitmap K st msb' = Inr psb"
    using assms(2) by (auto simp: portfs_init_fs_data_def split: sum.splits bind_splits)
  then obtain bs ft where ft: "load_entries K bs (unat (max_file_count msb)) = Some ft" "msb' = msb\<lparr>filetable := ft\<rparr>"
    by (auto simp: portfs_init_filetable_def Let_def split: if_splits sum.splits bind_splits)
  have "filetable psb = filetable msb'" "max_file_count psb = max_file_count msb'"
    using psb by (auto simp: portfs_init_block_bitmap_def Let_def split: if_splits sum.splits)
  with load_entries_little [OF assms(1) ft(1)] ft(2) show ?thesis by (simp add: table_ok_def)
qed

text \<open>An entry is free after a mount when it was free before, if the buffers were zero.\<close>

lemma comes_back_free:
  assumes "comes_back K (\<lambda>d. d_entry_mode d = 0) j fe fe'"
  shows "mode fe' = 0 \<longleftrightarrow> \<not> in_use fe"
proof (cases "in_use fe")
  case True
  then have "mode fe' = mode fe" using assms by (simp add: comes_back_def restored_entry_def)
  moreover have "mode fe \<noteq> 0" using True by (auto simp: in_use_def S_ISREG_def S_ISDIR_def)
  ultimately show ?thesis using True by simp
next
  case False
  have "be_to_cpu True 2 (0 :: u16) = 0" "be_to_cpu False 2 (0 :: u16) = 0" by code_simp+
  then have "be_to_cpu little 2 (0 :: u16) = 0" for little by (cases little) simp_all
  then have "mode (load_entry little fresh d) = 0" if "d_entry_mode d = 0" for little fresh d
    using that by (simp add: load_entry_def Let_def)
  with False assms show ?thesis by (auto simp: comes_back_def)
qed

text \<open>No search for the root succeeds then, and a mount makes a new root in the first free entry.\<close>

lemma fill_super_little:
  assumes "little_endian K" and "new_inode_ok K" and "d_make_root_ok K"
    and mounted: "portfs_init_fs_data K options path = Some (Inr psb)"
    and "unat (filetable_size psb * block_size psb) div ENTRY_SIZE \<le> length (filetable psb)"
    and "\<exists>j < length (filetable psb). mode (filetable psb ! j) = 0"
  shows "\<exists>k root psb'. portfs_fill_super K options path = Some (Inr (root, psb')) \<and> i_private root = Some k \<and>
    k < length (filetable psb) \<and> mode (filetable psb ! k) = 0"
proof -
  have table: "table_ok psb" "\<forall>fe \<in> set (filetable psb). ino fe = 0"
    using init_fs_data_little [OF assms(1) mounted] by simp_all
  have root: "portfs_get_fe_root psb = Some None"
    unfolding portfs_get_fe_root_def by (rule fe_root_loop_none [OF assms(5)]) (use table(2) in auto)
  obtain k where k: "portfs_find_free_file_entry psb = Some (Some k)"
    using find_free_file_entry_least [OF table(1)] assms(6) by auto
  with find_free_file_entry_Some [OF table(1) k] mounted root assms(2,3) show ?thesis
    by (auto simp: portfs_fill_super_def on_entry_def array_simps)
qed

section \<open>A concrete file system\<close>

text \<open>
  Blocks of 68 bytes: the superblock, two blocks for a table of two entries, one for the bitmap, four of
  data.  The root directory has its block and one name, the other entry is free.
\<close>

definition disk_root :: filetable_entry where
  "disk_root = zero_entry\<lparr>ino := 1, mode := 0x41ED, dir_u := \<lparr>dir_block = 4, parent_dir_ino = 1\<rparr>,
     dir_entries := Live [\<lparr>de_name = [97] @ replicate 63 0, inode_number = 7\<rparr>]\<rparr>"

definition disk_fs :: portfs_superblock where
  "disk_fs = (sample_super (replicate 68 0))\<lparr>block_size := 68, total_blocks := 8, filetable_start := 1,
     filetable_size := 2, block_bitmap_start := 3, block_bitmap_size := 1, data_start := 4,
     filetable := [disk_root, zero_entry]\<rparr>"

definition mount_host :: mount_env where
  "mount_host = sync_env.extend (kenv.extend host_env (sync_env.fields (\<lambda>j. zero_disk_entry) (Inr ())))
     (mount_env.fields (sample_super []) (\<lambda>i. 0) (\<lambda>i. zero_entry) (\<lambda>i. 0) (\<lambda>path. Inl ENOENT) True True)"

lemma mount_host_facts:
  "kernel_ok mount_host" "memory_ok mount_host" "fresh_ok mount_host (\<lambda>d. d_entry_mode d = 0)"
  "fresh_ok mount_host (\<lambda>d. True)" "vfs_fsync mount_host = Inr ()" "little_endian mount_host"
  "new_inode_ok mount_host" "d_make_root_ok mount_host"
  using host_env_ok host_env_memory_ok
  by (simp_all add: mount_host_def kernel_ok_def storage_law_def memory_ok_def fresh_ok_def zero_disk_entry_def
      kenv.defs sync_env.defs mount_env.defs) (simp add: host_env_def)

lemma disk_fs_entries:
  "filetable disk_fs = [disk_root, zero_entry]" "max_file_count disk_fs = 2" "data_start disk_fs = 4"
  "total_blocks disk_fs = 8" "block_size disk_fs = 68"
  by (simp_all add: disk_fs_def sample_super_def)

lemma disk_root_facts:
  "mode disk_root = 0x41ED" "dir_u disk_root = \<lparr>dir_block = 4, parent_dir_ino = 1\<rparr>"
  "dir_entries disk_root = Live [\<lparr>de_name = [97] @ replicate 63 0, inode_number = 7\<rparr>]" "S_ISDIR (mode disk_root)"
  by (simp_all add: disk_root_def S_ISDIR_def)

lemma disk_fs_dir: "loaded_dir disk_fs disk_root [\<lparr>de_name = [97] @ replicate 63 0, inode_number = 7\<rparr>]"
  using disk_root_facts
  by (simp add: loaded_dir_def is_directory_def dir_ok_def entry_ok_def name_of_def get_max_dir_entries_def disk_fs_entries)

lemma disk_fs_layout: "layout_ok disk_fs (replicate 544 0)"
  by (simp add: layout_ok_def storage_ok_def addressable_def table_ok_def disk_fs_def sample_super_def)

lemma disk_fs_ready: "\<forall>j < unat (max_file_count disk_fs). entry_ready disk_fs (filetable disk_fs ! j)"
proof -
  have "entry_ready disk_fs disk_root"
    using disk_root_facts not_REG_and_DIR [of "mode disk_root"]
    by (auto simp: entry_ready_def in_data_def disk_fs_entries get_max_dir_entries_def)
  moreover have "entry_ready disk_fs zero_entry"
    by (simp add: entry_ready_def zero_entry_def S_ISREG_def S_ISDIR_def)
  ultimately have "entry_ready disk_fs ([disk_root, zero_entry] ! j)" if "j < 2" for j
    using that less_2_cases [OF that] by auto
  then show ?thesis by (simp add: disk_fs_entries)
qed

text \<open>The same with a file of three bytes in its second entry.\<close>

definition disk_file :: filetable_entry where
  "disk_file = sample_file 3 [(5, 1)]"

definition disk_fs_file :: portfs_superblock where
  "disk_fs_file = disk_fs\<lparr>filetable := [disk_root, disk_file], block_bitmap := 0x3F # replicate 67 0\<rparr>"

lemma disk_file_facts:
  "mode disk_file = 0x81A4" "size_in_bytes disk_file = 3" "file_extents disk_file = [\<lparr>start_block = 5, ext_length = 1\<rparr>]"
  "extents_block (file_u disk_file) = 0" "extent_count (file_u disk_file) = 1" "S_ISREG (mode disk_file)" "\<not> S_ISDIR (mode disk_file)"
  "entry_shape disk_fs_file disk_file" "length (slots disk_file) = 4"
  by (simp_all add: disk_file_def sample_file_def zero_entry_def file_extents_def slots_def S_ISREG_def S_ISDIR_def entry_shape_def)

lemma disk_fs_file_simps:
  "filetable disk_fs_file = [disk_root, disk_file]" "max_file_count disk_fs_file = 2" "data_start disk_fs_file = 4"
  "total_blocks disk_fs_file = 8" "block_size disk_fs_file = 68" "block_bitmap disk_fs_file = 0x3F # replicate 67 0"
  by (simp_all add: disk_fs_file_def disk_fs_entries) 

lemma disk_file_blocks: "file_blocks disk_file = {5}" "dir_blocks disk_fs_file = {4}"
  using disk_root_facts disk_file_facts not_REG_and_DIR [of "mode disk_root"]
   by (auto simp: file_blocks_def ext_blocks_def dir_blocks_def dir_block_set_def disk_fs_file_simps less_2_cases_iff)

lemma disk_file_ok: "file_ok disk_fs_file disk_file"
proof -
  have "5 \<in> used_blocks disk_fs_file"
    by (simp add: used_blocks_def bits_of_def disk_fs_file_simps)
  then have "{5..<6} \<subseteq> used_blocks disk_fs_file" by (auto simp: less_Suc_eq_le dest!: le_antisym)
  then show ?thesis
    using disk_file_facts by (simp add: file_ok_def wf_file_def extents_ok_def disk_fs_file_simps ext_blocks_def addrs_def)
qed
lemma disk_fs_file_layout: "layout_ok disk_fs_file (replicate 340 0 @ [1, 2, 3] @ replicate 201 0)"
  by (simp add: layout_ok_def storage_ok_def addressable_def table_ok_def disk_fs_file_def disk_fs_def sample_super_def)

lemma disk_fs_file_ready: "\<forall>j < unat (max_file_count disk_fs_file). entry_ready disk_fs_file (filetable disk_fs_file ! j)"
proof -
  have "entry_ready disk_fs_file disk_root"
    using disk_root_facts not_REG_and_DIR [of "mode disk_root"]
    by (auto simp: entry_ready_def in_data_def disk_fs_file_simps get_max_dir_entries_def)
  moreover have "entry_ready disk_fs_file disk_file"
    using disk_file_facts by (simp add: entry_ready_def in_data_def)
  ultimately show ?thesis by (auto simp: disk_fs_file_simps less_2_cases_iff)
qed

lemma disk_file_contents: "contents (replicate 340 0 @ [1, 2, 3] @ replicate 201 0) disk_fs_file disk_file = [1, 2, 3]"
proof -
  have "addrs disk_fs_file disk_file = [340..<408]" using disk_file_facts by (simp add: addrs_def seg_def disk_fs_file_simps)
  moreover have "take 3 [340..<408] = [340, 341, 342 :: nat]" by (simp only: take_upt) (simp add: upt_rec)
  ultimately show ?thesis using disk_file_facts(2) by (simp add: contents_def nth_append)
qed

section \<open>Files with more than four extents\<close>

lemma fill_extents_loop_overrun:
  assumes "length (direct_extents (file_u src)) = DIRECT_EXTENTS" and "DIRECT_EXTENTS < unat (extent_count (file_u src))"
    and "k \<le> DIRECT_EXTENTS"
  shows "fill_extents_loop little src k u = None"
  using assms(3)
proof (induction "DIRECT_EXTENTS - k" arbitrary: k u)
  case 0
  then show ?case using assms(1,2) by (subst fill_extents_loop.simps) (simp add: array_get_def)
next
  case (Suc n)
  then show ?case using assms(1,2) by (subst fill_extents_loop.simps) (simp add: array_get_in)
qed

lemma fill_buffer_overrun:
  assumes "table_ok psb" and "j < unat (max_file_count psb)" and "\<And>dst st. write_entry K psb (filetable psb ! j) dst st = None"
    and "i \<le> j" and "c + (j - i) < BUF_ENTRIES"
  shows "fill_buffer K psb i c buf st = None"
  using assms(4,5)
proof (induction "j - i" arbitrary: i c buf st)
  case 0
  then show ?case using assms(1-3) by (subst fill_buffer.simps) (simp add: array_get_in table_ok_def)
next
  case (Suc n)
  then have i: "i < j" "n = j - Suc i" by simp_all
  show ?case
  proof (cases "write_entry K psb (filetable psb ! i) (buf c) st")
    case None
    then show ?thesis
      using i assms(1,2) Suc.prems by (subst fill_buffer.simps) (simp add: array_get_in table_ok_def)
  next
    case (Some z)
    obtain d st1 where "z = (d, st1)" by (cases z)
    moreover have "fill_buffer K psb (Suc i) (Suc c) (buf(c := d)) st1 = None"
      using Suc.hyps(1) [OF i(2), of "Suc c"] Suc.prems i(1) by simp
    ultimately show ?thesis
      using Some i assms(1,2) Suc.prems by (subst fill_buffer.simps) (simp add: array_get_in table_ok_def)
  qed
qed

section \<open>Properties\<close>

text \<open>
  C5: Mounting a storage that was synced gives back the geometry, the block bitmap and every entry in
  use: mode, size, extents or directory block.  Only the inode numbers come back on a big-endian host
  alone; on a little-endian one all of them are 0.
\<close>

theorem sync_then_mount:
  assumes "kernel_ok K" and "memory_ok K" and "fresh_ok K (\<lambda>d. True)" and "vfs_fsync K = Inr ()"
    and "layout_ok psb st" and "\<forall>j < unat (max_file_count psb). entry_ready psb (filetable psb ! j)"
  shows "\<exists>st' psb'. portfs_sync_fs K st psb = Some (Inr (), st') \<and>
    portfs_init_fs_data (reopened K st') options path = Some (Inr psb') \<and> same_geometry psb psb' \<and>
    block_bitmap psb' = block_bitmap psb \<and> length (filetable psb') = unat (max_file_count psb) \<and>
    (\<forall>j < length (filetable psb'). in_use (filetable psb ! j) \<longrightarrow>
       restored_entry (little_endian K) (filetable psb ! j) (filetable psb' ! j))"
proof -
  obtain st' psb' where "portfs_sync_fs K st psb = Some (Inr (), st')"
      "portfs_init_fs_data (reopened K st') options path = Some (Inr psb')" "same_geometry psb psb'"
      "block_bitmap psb' = block_bitmap psb" "length (filetable psb') = unat (max_file_count psb)"
      "\<forall>j < length (filetable psb'). comes_back K (\<lambda>d. True) j (filetable psb ! j) (filetable psb' ! j)"
    using sync_mount_run [OF assms] by blast
  then show ?thesis
    by (intro exI [of _ st'] exI [of _ psb']) (auto simp: comes_back_def)
qed

theorem sync_then_mount_witness:
  "\<exists>st' psb'. portfs_sync_fs mount_host (replicate 544 0) disk_fs = Some (Inr (), st') \<and>
    portfs_init_fs_data (reopened mount_host st') [] [] = Some (Inr psb') \<and>
    block_bitmap psb' = replicate 68 0 \<and> dir_block (dir_u (filetable psb' ! 0)) = 4 \<and> ino (filetable psb' ! 0) = 0"
proof -
  have "in_use disk_root" using disk_root_facts by (simp add: in_use_def)
  then show ?thesis
    using sync_then_mount [OF mount_host_facts(1,2,4,5) disk_fs_layout disk_fs_ready, of "[]" "[]"] disk_root_facts
    by (fastforce simp: disk_fs_entries restored_entry_def mount_host_facts disk_fs_def sample_super_def)
qed

text \<open>
  C6: The files outlive an unmount.  A file of the table whose blocks no directory uses has the same
  contents after a sync and a mount as before: the sync writes the metadata and the blocks of the
  directories only, and the mount finds the extents and the size again.
\<close>

theorem contents_survive_remount:
  assumes "kernel_ok K" and "memory_ok K" and "fresh_ok K (\<lambda>d. True)" and "vfs_fsync K = Inr ()"
    and "layout_ok psb st" and "\<forall>j < unat (max_file_count psb). entry_ready psb (filetable psb ! j)"
  shows "\<exists>st' psb'. portfs_sync_fs K st psb = Some (Inr (), st') \<and>
    portfs_init_fs_data (reopened K st') options path = Some (Inr psb') \<and>
    (\<forall>j < unat (max_file_count psb). S_ISREG (mode (filetable psb ! j)) \<and> file_ok psb (filetable psb ! j) \<and>
       file_blocks (filetable psb ! j) \<inter> dir_blocks psb = {} \<longrightarrow>
       contents st' psb' (filetable psb' ! j) = contents st psb (filetable psb ! j))"
proof -
  obtain st' psb' where st': "portfs_sync_fs K st psb = Some (Inr (), st')" "same_but (synced_bytes psb) st st'"
      "portfs_init_fs_data (reopened K st') options path = Some (Inr psb')" "same_geometry psb psb'"
      "length (filetable psb') = unat (max_file_count psb)"
      "\<forall>j < length (filetable psb'). comes_back K (\<lambda>d. True) j (filetable psb ! j) (filetable psb' ! j)"
    using sync_mount_run [OF assms] by blast
  have "contents st' psb' (filetable psb' ! j) = contents st psb (filetable psb ! j)"
    if "j < unat (max_file_count psb)" "S_ISREG (mode (filetable psb ! j))" "file_ok psb (filetable psb ! j)"
      "file_blocks (filetable psb ! j) \<inter> dir_blocks psb = {}" for j
  proof (rule contents_restored [OF _ _ that(4) st'(2,4)])
    show "storage_ok psb st" using assms(5) by (simp add: layout_ok_def)
    show "wf_file psb (filetable psb ! j)" using that(3) by (simp add: file_ok_def)
    have "restored_entry (little_endian K) (filetable psb ! j) (filetable psb' ! j)"
      using st'(5,6) that(1,2) by (simp add: comes_back_def in_use_def)
    then show "file_extents (filetable psb' ! j) = file_extents (filetable psb ! j)"
      and "size_in_bytes (filetable psb' ! j) = size_in_bytes (filetable psb ! j)"
      using that(2) by (simp_all add: restored_entry_def)
  qed
  with st'(1,3) show ?thesis by blast
qed

theorem contents_survive_remount_witness:
  "\<exists>st' psb'. portfs_sync_fs mount_host (replicate 340 0 @ [1, 2, 3] @ replicate 201 0) disk_fs_file = Some (Inr (), st') \<and>
    portfs_init_fs_data (reopened mount_host st') [] [] = Some (Inr psb') \<and>
    contents st' psb' (filetable psb' ! 1) = [1, 2, 3]"
proof -
  obtain st' psb' where "portfs_sync_fs mount_host (replicate 340 0 @ [1, 2, 3] @ replicate 201 0) disk_fs_file = Some (Inr (), st')"
      "portfs_init_fs_data (reopened mount_host st') [] [] = Some (Inr psb')"
      "\<forall>j < unat (max_file_count disk_fs_file). S_ISREG (mode (filetable disk_fs_file ! j)) \<and>
         file_ok disk_fs_file (filetable disk_fs_file ! j) \<and> file_blocks (filetable disk_fs_file ! j) \<inter> dir_blocks disk_fs_file = {} \<longrightarrow>
         contents st' psb' (filetable psb' ! j) = contents (replicate 340 0 @ [1, 2, 3] @ replicate 201 0) disk_fs_file (filetable disk_fs_file ! j)"
    using contents_survive_remount [OF mount_host_facts(1,2,4,5) disk_fs_file_layout disk_fs_file_ready] by blast
  then show ?thesis
    using disk_file_facts(6) disk_file_ok disk_file_blocks disk_file_contents
    by (intro exI [of _ st'] exI [of _ psb']) (simp add: disk_fs_file_simps)
qed
text \<open>
  C7: A file system that was synced and mounted again on a little-endian host has lost its root: the
  search for inode number 1 finds nothing, because every number was read as 0, and the mount makes a new
  root directory in an entry that was free.  All files of the old root are out of reach.
\<close>

theorem remount_loses_root:
  assumes "kernel_ok K" and "memory_ok K" and "fresh_ok K (\<lambda>d. d_entry_mode d = 0)" and "vfs_fsync K = Inr ()"
    and "layout_ok psb st" and "\<forall>j < unat (max_file_count psb). entry_ready psb (filetable psb ! j)"
    and "little_endian K" and "new_inode_ok K" and "d_make_root_ok K"
    and "table_bytes psb div ENTRY_SIZE \<le> unat (max_file_count psb)"
    and "\<exists>j < unat (max_file_count psb). \<not> in_use (filetable psb ! j)"
  shows "\<exists>st' root k psb'. portfs_sync_fs K st psb = Some (Inr (), st') \<and>
    portfs_fill_super (reopened K st') options path = Some (Inr (root, psb')) \<and>
    i_private root = Some k \<and> k < unat (max_file_count psb) \<and> \<not> in_use (filetable psb ! k)"
proof -
  obtain st' psb0 where st': "portfs_sync_fs K st psb = Some (Inr (), st')"
    and mounted: "portfs_init_fs_data (reopened K st') options path = Some (Inr psb0)"
    and geo: "same_geometry psb psb0" and len: "length (filetable psb0) = unat (max_file_count psb)"
    and ret: "\<forall>j < length (filetable psb0). comes_back K (\<lambda>d. d_entry_mode d = 0) j (filetable psb ! j) (filetable psb0 ! j)"
    using sync_mount_run [OF assms(1-6)] by blast
  have used: "mode (filetable psb0 ! j) = 0 \<longleftrightarrow> \<not> in_use (filetable psb ! j)" if "j < length (filetable psb0)" for j
    using comes_back_free ret that by blast
  have size: "unat (filetable_size psb0 * block_size psb0) div ENTRY_SIZE \<le> length (filetable psb0)"
    using same_geometry_layout [OF geo assms(5)] assms(10) len by simp
  have free: "\<exists>j < length (filetable psb0). mode (filetable psb0 ! j) = 0" using assms(11) len used by auto
  have env: "little_endian (reopened K st')" "new_inode_ok (reopened K st')" "d_make_root_ok (reopened K st')"
    using assms(7-9) by simp_all
  obtain root k psb' where "portfs_fill_super (reopened K st') options path = Some (Inr (root, psb'))"
      "i_private root = Some k" "k < length (filetable psb0)" "mode (filetable psb0 ! k) = 0"
    using fill_super_little [OF env mounted size free] by blast
  with st' len used show ?thesis by auto
qed

theorem remount_loses_root_witness:
  "\<exists>st' root psb'. portfs_sync_fs mount_host (replicate 544 0) disk_fs = Some (Inr (), st') \<and>
    portfs_fill_super (reopened mount_host st') [] [] = Some (Inr (root, psb')) \<and> i_private root = Some 1"
proof -
  have "in_use disk_root" "\<not> in_use zero_entry"
    using disk_root_facts by (simp_all add: in_use_def) (simp_all add: zero_entry_def S_ISREG_def S_ISDIR_def)
  then have free: "\<not> in_use (filetable disk_fs ! k) \<longleftrightarrow> k = 1" if "k < 2" for k
    using less_2_cases [OF that] by (auto simp: disk_fs_entries)
  have "table_bytes disk_fs div ENTRY_SIZE \<le> unat (max_file_count disk_fs)" "unat (max_file_count disk_fs) = 2"
    by (simp_all add: disk_fs_def sample_super_def)
  moreover from this(2) have "\<exists>j < unat (max_file_count disk_fs). \<not> in_use (filetable disk_fs ! j)"
    using free [of 1] by (intro exI [of _ 1]) simp
  ultimately obtain st' root k psb' where "portfs_sync_fs mount_host (replicate 544 0) disk_fs = Some (Inr (), st')"
      "portfs_fill_super (reopened mount_host st') [] [] = Some (Inr (root, psb'))" "i_private root = Some k"
      "k < 2" "\<not> in_use (filetable disk_fs ! k)"
    using remount_loses_root [OF mount_host_facts(1-3,5) disk_fs_layout disk_fs_ready mount_host_facts(6-8), of "[]" "[]"]
    by metis
  with free show ?thesis by blast
qed

text \<open>
  C34: A sync of a file system with a regular file of more than four extents goes out of bounds: the loop
  that fills the image runs over all extents but takes them from the array of the four direct ones.
\<close>

theorem sync_overruns_direct_extents:
  assumes "table_ok psb" and "j < unat (max_file_count psb)" and "j < BUF_ENTRIES" and "S_ISREG (mode (filetable psb ! j))"
    and "length (direct_extents (file_u (filetable psb ! j))) = DIRECT_EXTENTS"
    and "DIRECT_EXTENTS < unat (extent_count (file_u (filetable psb ! j)))"
    and "kmalloc_ok K Site_table_image"
  shows "portfs_write_filetable K st psb = None"
proof -
  have "write_entry K psb (filetable psb ! j) dst st = None" for dst st
    using fill_extents_loop_overrun [OF assms(5,6), of 0] assms(4)
    by (simp add: write_entry_def S_ISREG_def portfs_fill_file_data_def)
  then have "fill_buffer K psb 0 0 buf st = None" for buf st
    by (rule fill_buffer_overrun [OF assms(1,2)]) (use assms(3) in simp_all)
  then show ?thesis
    using assms(2,7) by (subst portfs_write_filetable_def, subst write_table_loop.simps) simp
qed

definition five_extents :: filetable_entry where
  "five_extents = (sample_file 600 [(4, 1), (5, 1), (6, 1), (7, 1)])\<lparr>file_u :=
     \<lparr>extent_count = 5, extents_block = 4, direct_extents = replicate 4 \<lparr>start_block = 5, ext_length = 1\<rparr>\<rparr>,
     indirect_extents := Live (replicate 8 \<lparr>start_block = 6, ext_length = 2\<rparr>)\<rparr>"

theorem sync_overruns_direct_extents_witness:
  "portfs_write_filetable mount_host (replicate 544 0) (disk_fs\<lparr>filetable := [disk_root, five_extents]\<rparr>) = None"
  by (rule sync_overruns_direct_extents [of _ 1])
    (use mount_host_facts(2) in \<open>simp_all add: table_ok_def disk_fs_entries five_extents_def sample_file_def S_ISREG_def
      memory_ok_def\<close>)

text \<open>
  C35: The entries of a directory survive being written to its block and loaded again: the same names with
  the same inode numbers, and the metadata of the storage is not touched.
\<close>

theorem dir_entries_survive:
  assumes "kernel_ok K" and "memory_ok K" and "layout_ok psb st" and "loaded_dir psb dir es"
    and "data_start psb \<le> dir_block (dir_u dir)" and "dir_block (dir_u dir) < total_blocks psb"
  shows "\<exists>st' es'. portfs_write_dir_data K st psb dir = Some (Inr (), st') \<and>
    portfs_load_dir_data K st' psb (dir\<lparr>dir_entries := Null\<rparr>) = Some (Inr (), psb, dir\<lparr>dir_entries := Live es'\<rparr>) \<and>
    loaded_dir psb (dir\<lparr>dir_entries := Live es'\<rparr>) es' \<and> dir_map es' = dir_map es \<and>
    region st' 0 (data_pos psb) = region st 0 (data_pos psb)"
proof -
  obtain st' where st': "portfs_write_dir_data K st psb dir = Some (Inr (), st')" "meta_same psb st st'"
      "portfs_load_dir_data K st' psb (dir\<lparr>dir_entries := Null\<rparr>) =
        Some (Inr (), psb, dir\<lparr>dir_entries := Live (map reloaded es)\<rparr>)"
    using dir_block_roundtrip [OF assms refl] by auto
  have "loaded_dir psb (dir\<lparr>dir_entries := Live (map reloaded es)\<rparr>) (map reloaded es)"
    using assms(4) entry_ok_reloaded by (auto simp: loaded_dir_def is_directory_def dir_ok_def)
  with st' show ?thesis
    by (intro exI [of _ st'] exI [of _ "map reloaded es"]) (simp add: dir_map_reloaded meta_same_def)
qed

theorem dir_entries_survive_witness:
  "\<exists>st' es'. portfs_write_dir_data mount_host (replicate 544 0) disk_fs disk_root = Some (Inr (), st') \<and>
    portfs_load_dir_data mount_host st' disk_fs (disk_root\<lparr>dir_entries := Null\<rparr>) =
      Some (Inr (), disk_fs, disk_root\<lparr>dir_entries := Live es'\<rparr>) \<and> dir_map es' [97] = Some 7"
proof -
  have "dir_map [\<lparr>de_name = [97] @ replicate 63 0, inode_number = 7\<rparr>] [97] = Some 7"
    by (simp add: dir_map_def name_of_def)
  then show ?thesis
    using dir_entries_survive [OF mount_host_facts(1,2) disk_fs_layout disk_fs_dir] disk_root_facts
    by (fastforce simp: disk_fs_entries)
qed

text \<open>
  C36: The indirect extents of a file do not survive being written and loaded again on a little-endian
  host: they are written big-endian and read without a conversion, so the bytes of every block number and
  length come back reversed.  On a big-endian host they come back as they were.
\<close>

theorem indirect_extents_reversed:
  assumes "kernel_ok K" and "memory_ok K" and "layout_ok psb st"
    and "indirect_extents fe = Live es" and "length es = unat (block_size psb) div 8"
    and "DIRECT_EXTENTS \<le> unat (extent_count (file_u fe))"
    and "unat (extent_count (file_u fe)) \<le> DIRECT_EXTENTS + length es"
    and "data_start psb \<le> extents_block (file_u fe)" and "extents_block (file_u fe) < total_blocks psb"
  shows "\<exists>st' es'. portfs_write_file_data K st psb fe = Some (Inr (), st') \<and>
    portfs_alloc_indirect_extents K retry st' psb (fe\<lparr>indirect_extents := Null\<rparr>) =
      Some (Inr (), psb, fe\<lparr>indirect_extents := Live es'\<rparr>) \<and>
    (\<forall>i < unat (extent_count (file_u fe)) - DIRECT_EXTENTS. es' ! i =
       (if little_endian K then \<lparr>start_block = be_word (le_bytes 4 (start_block (es ! i))),
                                 ext_length = be_word (le_bytes 4 (ext_length (es ! i)))\<rparr>
        else es ! i))"
proof -
  have raw: "read_raw l e = (if l then \<lparr>start_block = be_word (le_bytes 4 (start_block e)),
      ext_length = be_word (le_bytes 4 (ext_length e))\<rparr> else e)" for l e
    by (cases l) (simp_all, simp add: read_raw_def cpu_to_be_def cpu_word_def be_bytes_def be_word_def)
  show ?thesis using extents_block_roundtrip [OF assms, of retry] unfolding raw by blast
qed

theorem indirect_extents_reversed_witness:
  "\<exists>st' es'. portfs_write_file_data mount_host (replicate 544 0) disk_fs five_extents = Some (Inr (), st') \<and>
    portfs_alloc_indirect_extents mount_host False st' disk_fs (five_extents\<lparr>indirect_extents := Null\<rparr>) =
      Some (Inr (), disk_fs, five_extents\<lparr>indirect_extents := Live es'\<rparr>) \<and>
    es' ! 0 = \<lparr>start_block = 0x06000000, ext_length = 0x02000000\<rparr>"
proof -
  have "be_word (le_bytes 4 (6 :: u32)) = (0x06000000 :: u32)" "be_word (le_bytes 4 (2 :: u32)) = (0x02000000 :: u32)"
    by code_simp+
  then show ?thesis
    using indirect_extents_reversed [OF mount_host_facts(1,2) disk_fs_layout, of five_extents
        "replicate 8 \<lparr>start_block = 6, ext_length = 2\<rparr>" False] mount_host_facts(6)
    by (auto simp: five_extents_def disk_fs_entries)
qed

end
