(* ===== verification/Format.thy ===== *)
theory Format
  imports Persistence
begin

text \<open>
  The formatting tool: \<open>user/StorageManager.cpp\<close> and the computation of the size in
  \<open>user/UIManager.cpp\<close>.  The storage file is the list of its bytes; a stream is the file and its
  position.  Opening a stream can fail, writing cannot: the code does not look at the state of the stream
  after a write.
\<close>

section \<open>Streams\<close>

datatype format_step = Open_superblock | Open_filetable | Open_bitmap

record tool_env =
  tool_little_endian :: bool
  open_ok :: "format_step \<Rightarrow> bool"
  padding :: "u8 list"

text \<open>Writing at a position, also behind the end of the file.\<close>

definition stream_write :: "u8 list \<times> nat \<Rightarrow> u8 list \<Rightarrow> u8 list \<times> nat" where
  "stream_write f bs =
     (let (st, p) = f; st = st @ replicate (p - length st) 0 in (overwrite st p bs, p + length bs))"

section \<open>Operations\<close>

text \<open>\<open>askFileSize\<close>: the size in bytes from the one in GB.\<close>

definition askFileSize :: "u64 \<Rightarrow> u64" where
  "askFileSize fileSize = fileSize * 1024 * 1024 * 1024"

text \<open>
  \<open>createFile\<close>: the old content of the file, if any, is cut or extended by zeros; the flags tell whether
  \<open>open\<close> and \<open>ftruncate\<close> succeed.
\<close>

definition createFile :: "bool \<Rightarrow> bool \<Rightarrow> u8 list \<Rightarrow> u64 \<Rightarrow> u8 list option" where
  "createFile opened truncated old fileSizeInBytes =
     (if opened \<and> truncated
      then Some (take (unat fileSizeInBytes) (old @ replicate (unat fileSizeInBytes) 0))
      else None)"

definition averageFileSize :: u64 where "averageFileSize = 1 * 1024 * 1024"
definition blockSize :: u32 where "blockSize = 4096"
definition portfsMagic :: u32 where "portfsMagic = 0x506F5254"

definition createSuperblock :: "u64 \<Rightarrow> portfs_superblock" where
  "createSuperblock storageFileSizeInBytes =
     (let total_blocks = (ucast (storageFileSizeInBytes div ucast blockSize) :: u32);
          maxFilesCount = (ucast (storageFileSizeInBytes div averageFileSize) :: u32);
          filetableSizeBytes = (ucast ((ucast maxFilesCount :: u64) * 52) :: u32);
          filetableSizeBlocks = filetableSizeBytes div blockSize;
          block_bitmap_start = 1 + filetableSizeBlocks;
          blockBitmapSizeBytes = total_blocks div 8;
          blockBitmapSizeBlocks = blockBitmapSizeBytes div blockSize
      in \<lparr>magic_number = portfsMagic, block_size = blockSize, total_blocks = total_blocks,
          filetable_start = 1, filetable_size = filetableSizeBlocks,
          block_bitmap_start = block_bitmap_start, block_bitmap_size = blockBitmapSizeBlocks,
          data_start = block_bitmap_start + blockBitmapSizeBlocks, max_file_count = maxFilesCount, checksum = 0,
          last_mount_time = 0, last_write_time = 0, flags = 0, filetable = [], block_bitmap = []\<rparr>)"

text \<open>
  The superblock is written as the in-memory structure, whose fields have the offsets of the packed one
  and are followed by four bytes of padding.
\<close>

definition writeSuperblock :: "tool_env \<Rightarrow> u8 list \<Rightarrow> portfs_superblock \<Rightarrow> u8 list option" where
  "writeSuperblock T st msb =
     (let l = tool_little_endian T;
          dsb = \<lparr>ds_magic_number = cpu_to_be l 4 (magic_number msb), ds_block_size = cpu_to_be l 4 (block_size msb),
            ds_total_blocks = cpu_to_be l 4 (total_blocks msb), ds_filetable_start = cpu_to_be l 4 (filetable_start msb),
            ds_filetable_size = cpu_to_be l 4 (filetable_size msb),
            ds_block_bitmap_start = cpu_to_be l 4 (block_bitmap_start msb),
            ds_block_bitmap_size = cpu_to_be l 4 (block_bitmap_size msb), ds_data_start = cpu_to_be l 4 (data_start msb),
            ds_max_file_count = cpu_to_be l 4 (max_file_count msb), ds_checksum = cpu_to_be l 4 (checksum msb),
            ds_last_mount_time = cpu_to_be l 8 (last_mount_time msb),
            ds_last_write_time = cpu_to_be l 8 (last_write_time msb), ds_flags = cpu_to_be l 4 (flags msb)\<rparr>
      in if open_ok T Open_superblock
         then Some (fst (stream_write (st, 0) (disk_superblock_bytes l dsb @ padding T)))
         else None)"

text \<open>The loop of \<open>writeFileTable\<close>: entries are collected in a buffer that is written when it is full.\<close>

abbreviation BUFFER_SIZE :: nat where
  "BUFFER_SIZE \<equiv> 1 * 1024 * 1024"

definition buffer_bytes :: "bool \<Rightarrow> disk_filetable_entry list \<Rightarrow> u8 list" where
  "buffer_bytes little buf = concat (map (disk_entry_bytes little) buf)"

fun push_entries ::
    "bool \<Rightarrow> nat \<Rightarrow> disk_filetable_entry list \<Rightarrow> u8 list \<times> nat \<Rightarrow> disk_filetable_entry list \<times> u8 list \<times> nat" where
  "push_entries little 0 buf f = (buf, f)"
| "push_entries little (Suc n) buf f =
     (let buf = buf @ [zero_disk_entry]
      in if BUFFER_SIZE \<le> length buf * 52
         then push_entries little n [] (stream_write f (buffer_bytes little buf))
         else push_entries little n buf f)"

definition writeFileTable :: "tool_env \<Rightarrow> u8 list \<Rightarrow> portfs_superblock \<Rightarrow> u8 list option" where
  "writeFileTable T st msb =
     (if open_ok T Open_filetable then
        let (buf, f) = push_entries (tool_little_endian T) (unat (max_file_count msb)) []
              (st, unat (filetable_start msb * block_size msb))
        in Some (fst (if buf \<noteq> [] then stream_write f (buffer_bytes (tool_little_endian T) buf) else f))
      else None)"

function zero_loop :: "nat \<Rightarrow> u8 list \<times> nat \<Rightarrow> u8 list \<times> nat" where
  "zero_loop remainingBytes f =
     (if 0 < remainingBytes then
        let bytesToWrite = min BUFFER_SIZE remainingBytes
        in zero_loop (remainingBytes - bytesToWrite) (stream_write f (replicate bytesToWrite 0))
      else f)"
  by pat_completeness auto
termination
  by (relation "measure fst") auto

declare zero_loop.simps [simp del]

definition writeBlockBitmap :: "tool_env \<Rightarrow> u8 list \<Rightarrow> portfs_superblock \<Rightarrow> u8 list option" where
  "writeBlockBitmap T st msb =
     (if open_ok T Open_bitmap
      then Some (fst (zero_loop (unat (block_bitmap_size msb * block_size msb))
                       (st, unat (block_bitmap_start msb * block_size msb))))
      else None)"

text \<open>The return value and the file, which keeps what was written before a failure.\<close>

definition formatStorage :: "tool_env \<Rightarrow> u64 \<Rightarrow> u8 list \<Rightarrow> int \<times> u8 list" where
  "formatStorage T storageFileSizeInBytes st =
     (let msb = createSuperblock storageFileSizeInBytes
      in case writeSuperblock T st msb of
           None \<Rightarrow> (-1, st)
         | Some st \<Rightarrow>
             (case writeFileTable T st msb of
                None \<Rightarrow> (-1, st)
              | Some st \<Rightarrow>
                  (case writeBlockBitmap T st msb of
                     None \<Rightarrow> (-1, st)
                   | Some st \<Rightarrow> (0, st))))"

section \<open>What the loops write\<close>

lemma stream_write_inside:
  "p + length bs \<le> length st \<Longrightarrow> stream_write (st, p) bs = (overwrite st p bs, p + length bs)"
  by (simp add: stream_write_def)

lemma stream_write_append:
  assumes "p + length a + length b \<le> length st"
  shows "stream_write (stream_write (st, p) a) b = stream_write (st, p) (a @ b)"
  using assms by (simp add: stream_write_inside overwrite_overwrite add.assoc)

lemma cpu_bytes_0 [simp]: "cpu_bytes little n (0 :: 'a::len word) = replicate n 0"
proof -
  have "le_bytes n (0 :: 'a word) = replicate n 0" by (induction n) simp_all
  then show ?thesis by (simp add: cpu_bytes_def be_bytes_def)
qed

lemma be_bytes_0 [simp]: "be_bytes n (0 :: 'a::len word) = replicate n 0"
  using cpu_bytes_0 [of False n, where 'a = 'a] by (simp add: cpu_bytes_def)

lemma zero_entry_bytes [simp]: "disk_entry_bytes little zero_disk_entry = replicate 52 0"
  by (simp add: disk_entry_bytes_def zero_disk_entry_def replicate_add [symmetric])

lemma buffer_bytes_zero: "buffer_bytes little (replicate n zero_disk_entry) = replicate (52 * n) 0"
  unfolding buffer_bytes_def by (induction n) (simp_all add: replicate_add)

text \<open>Whatever the grouping into buffers, the entries are written one after the other.\<close>

lemma push_entries_run:
  assumes "p + 52 * (k + n) \<le> length st"
  shows "(case push_entries little n (replicate k zero_disk_entry) (st, p) of
      (buf, f) \<Rightarrow> if buf \<noteq> [] then stream_write f (buffer_bytes little buf) else f) =
    (overwrite st p (replicate (52 * (k + n)) 0), p + 52 * (k + n))"
  using assms
proof (induction n arbitrary: k st p)
  case 0
  then show ?case by (simp add: buffer_bytes_zero stream_write_inside) (simp add: overwrite_def)
next
  case (Suc n)
  let ?z = "replicate (52 * Suc k) (0 :: u8)"
  have buf: "replicate k zero_disk_entry @ [zero_disk_entry] = replicate (Suc k) zero_disk_entry"
    by (simp add: replicate_append_same)
  show ?case
  proof (cases "BUFFER_SIZE \<le> Suc k * 52")
    case False
    then show ?thesis
      using Suc.IH [of p "Suc k" st] Suc.prems unfolding push_entries.simps buf by simp
  next
    case True
    have fits: "p + length ?z + length (replicate (52 * n) (0 :: u8)) \<le> length st" using Suc.prems by simp
    then have len: "length (overwrite st p ?z) = length st" by simp
    have "(case push_entries little n [] (overwrite st p ?z, p + length ?z) of
        (buf, f) \<Rightarrow> if buf \<noteq> [] then stream_write f (buffer_bytes little buf) else f) =
      (overwrite (overwrite st p ?z) (p + length ?z) (replicate (52 * n) 0), p + length ?z + 52 * n)"
      using Suc.IH [of "p + length ?z" 0 "overwrite st p ?z"] fits len by simp
    also have "overwrite (overwrite st p ?z) (p + length ?z) (replicate (52 * n) 0) =
        overwrite st p (replicate (52 * (k + Suc n)) 0)"
      using overwrite_overwrite [OF fits] by (simp add: replicate_add [symmetric] algebra_simps)
    finally show ?thesis
      using True fits unfolding push_entries.simps buf Let_def buffer_bytes_zero
      by (simp add: stream_write_inside algebra_simps)
  qed
qed

lemma zero_loop_run:
  assumes "p + n \<le> length st"
  shows "zero_loop n (st, p) = (overwrite st p (replicate n 0), p + n)"
  using assms
proof (induction n arbitrary: st p rule: less_induct)
  case (less n)
  let ?m = "min BUFFER_SIZE n"
  show ?case
  proof (cases "n = 0")
    case True
    then show ?thesis by (subst zero_loop.simps) (simp add: overwrite_def)
  next
    case False
    have fits: "p + length (replicate ?m (0 :: u8)) + length (replicate (n - ?m) (0 :: u8)) \<le> length st"
      using less.prems by simp
    then have "zero_loop (n - ?m) (overwrite st p (replicate ?m 0), p + ?m) =
        (overwrite (overwrite st p (replicate ?m 0)) (p + ?m) (replicate (n - ?m) 0), p + ?m + (n - ?m))"
      using False by (intro less.IH) simp_all
    also have "\<dots> = (overwrite st p (replicate n 0), p + n)"
      using overwrite_overwrite [OF fits] by (simp add: replicate_add [symmetric])
    finally show ?thesis
      using False fits by (subst zero_loop.simps) (simp add: Let_def stream_write_inside)
  qed
qed

end
