(* ===== verification/Format_Spec.thy ===== *)
theory Format_Spec
  imports Format
begin

text \<open>
  The layout the formatting tool computes, and what a mount finds on a formatted storage.
\<close>

section \<open>The layout\<close>

lemma unat_ucast_u64_u32: "unat (w :: u64) < 2 ^ 32 \<Longrightarrow> unat (ucast w :: u32) = unat w"
  by (simp add: unsigned_ucast_eq take_bit_nat_eq_self)

lemma unat_of_nat_u64: "n < 2 ^ 64 \<Longrightarrow> unat (of_nat n :: u64) = n"
  by (rule unat_of_nat_small)

lemma cpu_to_be_0: "cpu_to_be little n (0 :: 'a::len word) = 0"
  using le_word_zeros [of n "[]", where 'a = 'a]
  by (simp add: cpu_to_be_def cpu_word_def be_word_def)

text \<open>All fields for a storage of \<open>n\<close> GiB, below 16 TiB.\<close>

lemma size_of_gb:
  assumes "n < 2 ^ 14"
  shows "unat (askFileSize (of_nat n)) = n * 2 ^ 30"
proof -
  have n: "unat (of_nat n :: u64) = n" by (rule unat_of_nat_small) (use assms in simp)
  have "unat (of_nat n * 1024 :: u64) = n * 1024" by (subst unat_mult_no_wrap) (use n assms in simp_all)
  then have "unat (of_nat n * 1024 * 1024 :: u64) = n * 1024 * 1024" by (subst unat_mult_no_wrap) (use assms in simp_all)
  then have "unat (of_nat n * 1024 * 1024 * 1024 :: u64) = n * 1024 * 1024 * 1024"
    by (subst unat_mult_no_wrap) (use assms in simp_all)
  then show ?thesis by (simp add: askFileSize_def)
qed

lemma superblock_fields:
  assumes n: "n < 2 ^ 14" and msb: "msb = createSuperblock (askFileSize (of_nat n))"
  shows "unat (total_blocks msb) = n * 2 ^ 18" and "unat (max_file_count msb) = n * 1024"
    and "unat (filetable_start msb) = 1" and "unat (filetable_size msb) = n * 13"
    and "unat (block_bitmap_start msb) = 1 + n * 13" and "unat (block_bitmap_size msb) = n * 8"
    and "unat (data_start msb) = 1 + n * 21" and "unat (block_size msb) = 4096"
proof -
  let ?s = "askFileSize (of_nat n)"
  note s = size_of_gb [OF n]
  have bs: "unat (ucast blockSize :: u64) = 4096" "unat blockSize = 4096" "unat averageFileSize = 2 ^ 20"
    by (simp_all add: blockSize_def averageFileSize_def)
  have "unat (?s div ucast blockSize) = n * 2 ^ 18" by (simp only: unat_div s bs) simp
  then have total: "unat (ucast (?s div ucast blockSize) :: u32) = n * 2 ^ 18"
    using n by (subst unat_ucast_u64_u32) simp_all
  have "unat (?s div averageFileSize) = n * 1024" by (simp only: unat_div s bs) simp
  then have files: "unat (ucast (?s div averageFileSize) :: u32) = n * 1024"
    using n by (subst unat_ucast_u64_u32) simp_all
  let ?m = "ucast (?s div averageFileSize) :: u32"
  have "unat ((ucast ?m :: u64) * 52) = n * 1024 * 52"
    using n files by (subst unat_mult_no_wrap) simp_all
  then have "unat (ucast ((ucast ?m :: u64) * 52) :: u32) = n * 1024 * 52"
    using n by (subst unat_ucast_u64_u32) simp_all
  then have table: "unat ((ucast ((ucast ?m :: u64) * 52) :: u32) div blockSize) = n * 13"
    by (simp add: unat_div bs)
  let ?t = "(ucast ((ucast ?m :: u64) * 52) :: u32) div blockSize"
  have bstart: "unat (1 + ?t) = 1 + n * 13" using n table by (subst unat_add_no_wrap) simp_all
  let ?b = "(ucast (?s div ucast blockSize) :: u32) div 8 div blockSize"
  have bsize: "unat ?b = n * 8" by (simp only: unat_div total bs) simp
  have data: "unat (1 + ?t + ?b) = 1 + n * 21" using n bstart bsize by (subst unat_add_no_wrap) simp_all
  show "unat (total_blocks msb) = n * 2 ^ 18" and "unat (max_file_count msb) = n * 1024"
    and "unat (filetable_start msb) = 1" and "unat (filetable_size msb) = n * 13"
    and "unat (block_bitmap_start msb) = 1 + n * 13" and "unat (block_bitmap_size msb) = n * 8"
    and "unat (data_start msb) = 1 + n * 21" and "unat (block_size msb) = 4096"
    unfolding msb createSuperblock_def Let_def using total files table bstart bsize data bs by simp_all
qed

section \<open>A formatted storage holds an empty file system\<close>

text \<open>The file system that formatting means: all entries free, no block allocated.\<close>

definition empty_file_system :: "u64 \<Rightarrow> portfs_superblock" where
  "empty_file_system n = (let msb = createSuperblock n in msb\<lparr>
     filetable := replicate (unat (max_file_count msb)) zero_entry,
     block_bitmap := replicate (unat (block_bitmap_size msb) * unat (block_size msb)) 0\<rparr>)"

lemma empty_file_system_simps [simp]:
  "block_size (empty_file_system n) = block_size (createSuperblock n)"
  "total_blocks (empty_file_system n) = total_blocks (createSuperblock n)"
  "filetable_start (empty_file_system n) = filetable_start (createSuperblock n)"
  "filetable_size (empty_file_system n) = filetable_size (createSuperblock n)"
  "block_bitmap_start (empty_file_system n) = block_bitmap_start (createSuperblock n)"
  "block_bitmap_size (empty_file_system n) = block_bitmap_size (createSuperblock n)"
  "data_start (empty_file_system n) = data_start (createSuperblock n)"
  "max_file_count (empty_file_system n) = max_file_count (createSuperblock n)"
  "filetable (empty_file_system n) = replicate (unat (max_file_count (createSuperblock n))) zero_entry"
  "block_bitmap (empty_file_system n) =
     replicate (unat (block_bitmap_size (createSuperblock n)) * unat (block_size (createSuperblock n))) 0"
  "disk_super_of little (empty_file_system n) = disk_super_of little (createSuperblock n)"
  by (simp_all add: empty_file_system_def Let_def disk_super_of_def)

text \<open>Up to 4 GiB the kernel module can address every byte of the storage.\<close>

lemma formatted_layout:
  assumes n: "0 < n" "n \<le> 4" and st: "length st = n * 2 ^ 30"
  shows "layout_ok (empty_file_system (askFileSize (of_nat n))) st"
proof -
  have n14: "n < 2 ^ 14" using n(2) by simp
  note f = superblock_fields [OF n14 refl]
  show ?thesis
    using n st
    by (simp add: layout_ok_def storage_ok_def addressable_def table_ok_def word_less_nat_alt word_le_nat_alt f)
qed

lemma format_run:
  assumes n: "0 < n" "n \<le> 4" and st: "length st = n * 2 ^ 30"
    and T: "\<And>s. open_ok T s" "length (padding T) = 4"
  shows "\<exists>st'. formatStorage T (askFileSize (of_nat n)) st = (0, st') \<and> length st' = length st \<and>
    synced (tool_little_endian T) (\<lambda>d. d = zero_disk_entry) (empty_file_system (askFileSize (of_nat n))) st'"
proof -
  define msb where "msb = createSuperblock (askFileSize (of_nat n))"
  let ?l = "tool_little_endian T" and ?psb = "empty_file_system (askFileSize (of_nat n))"
  have n14: "n < 2 ^ 14" using n(2) by simp
  note f = superblock_fields [OF n14 msb_def]
  have "(1 + n * 13) * 4096 < (2 :: nat) ^ 32" and "n * 8 * 4096 < (2 :: nat) ^ 32" using n by simp_all
  then have tp: "unat (filetable_start msb * block_size msb) = 4096"
    and bp: "unat (block_bitmap_start msb * block_size msb) = 4096 + n * 53248"
    and bb: "unat (block_bitmap_size msb * block_size msb) = n * 32768"
    by (simp_all add: unat_mult_no_wrap f add_mult_distrib)
  have times: "last_mount_time msb = 0" "last_write_time msb = 0" "flags msb = 0"
    by (simp_all add: msb_def createSuperblock_def Let_def)
  have zero64: "cpu_to_be l 8 (0 :: u64) = 0" and zero32: "cpu_to_be l 4 (0 :: u32) = 0" for l
    by (rule cpu_to_be_0)+
  define sb where "sb = disk_superblock_bytes ?l (disk_super_of ?l msb)"
  define st1 where "st1 = overwrite st 0 (sb @ padding T)"
  have fits1: "0 + length (sb @ padding T) \<le> length st" using st n T(2) by (simp add: sb_def)
  have "writeSuperblock T st msb = Some st1"
    unfolding writeSuperblock_def times zero64 zero32 Let_def st1_def sb_def disk_super_of_def
    using fits1 T(1) by (simp add: stream_write_inside sb_def)
  moreover define st2 where "st2 = overwrite st1 4096 (replicate (52 * (n * 1024)) 0)"
  have len1: "length st1 = length st" using fits1 by (simp add: st1_def)
  have fits2: "4096 + length (replicate (52 * (n * 1024)) (0 :: u8)) \<le> length st1" using st n len1 by simp
  have "writeFileTable T st1 msb = Some st2"
    using push_entries_run [of 4096 0 "n * 1024" st1 ?l] fits2 T(1)
    by (simp add: writeFileTable_def tp f(2) st2_def split: prod.splits) (metis fst_conv)
  moreover define st3 where "st3 = overwrite st2 (4096 + n * 53248) (replicate (n * 32768) 0)"
  have len2: "length st2 = length st" using fits2 len1 by (simp add: st2_def)
  have fits3: "4096 + n * 53248 + length (replicate (n * 32768) (0 :: u8)) \<le> length st2" using st n len2 by simp
  have "writeBlockBitmap T st2 msb = Some st3"
    using zero_loop_run [of "4096 + n * 53248" "n * 32768" st2] fits3 T(1)
    by (simp add: writeBlockBitmap_def bp bb st3_def)
  ultimately have run: "formatStorage T (askFileSize (of_nat n)) st = (0, st3)"
    by (simp add: formatStorage_def msb_def [symmetric])
  have len3: "length st3 = length st" using fits3 len2 by (simp add: st3_def)
  have low3: "region st3 p m = region st2 p m" if "p + m \<le> 4096 + n * 53248" for p m
    unfolding st3_def by (rule region_overwrite_disjoint [OF fits3]) (use that fits3 in auto)
  have "region st3 0 60 = sb"
  proof -
    have "region st3 0 60 = region st2 0 60" by (rule low3) simp
    also have "\<dots> = region st1 0 60"
      unfolding st2_def by (rule region_overwrite_disjoint [OF fits2]) (use fits2 in auto)
    also have "\<dots> = take 60 (region st1 0 (length (sb @ padding T)))" using T(2) by (simp add: region_def sb_def)
    also have "\<dots> = sb" unfolding st1_def region_overwrite [OF fits1] by (simp add: sb_def)
    finally show ?thesis .
  qed
  moreover have "table_images ?l (\<lambda>d. d = zero_disk_entry) ?psb st3 0 (unat (max_file_count ?psb))"
    unfolding table_images_def
  proof (intro allI impI)
    fix j assume "0 \<le> j \<and> j < unat (max_file_count ?psb)"
    then have j: "j < n * 1024" using f(2) by (simp add: msb_def)
    have "region st2 4096 (52 * (n * 1024)) = replicate (52 * (n * 1024)) 0"
      using region_overwrite [OF fits2] by (simp add: st2_def)
    then have "region st2 (4096 + 52 * j) 52 = replicate 52 0"
      using region_region [of "52 * j" 52 "52 * (n * 1024)" st2 4096] j by (simp add: region_def)
    moreover have "region st3 (4096 + 52 * j) 52 = region st2 (4096 + 52 * j) 52" by (rule low3) (use j in simp)
    moreover have "\<not> in_use zero_entry" by (simp add: in_use_def zero_entry_def S_ISREG_def S_ISDIR_def)
    moreover have "filetable ?psb ! j = zero_entry" "table_pos ?psb = 4096"
      using j f by (simp_all add: msb_def [symmetric])
    ultimately show "\<exists>d. region st3 (table_pos ?psb + 52 * j) 52 = disk_entry_bytes ?l d \<and>
        good_image ?l (\<lambda>d. d = zero_disk_entry) (filetable ?psb ! j) d"
      by (intro exI [of _ zero_disk_entry]) (simp add: good_image_def, simp add: zero_disk_entry_def)
  qed
  moreover have "region st3 (bitmap_pos ?psb) (bitmap_bytes ?psb) = block_bitmap ?psb"
    using region_overwrite [OF fits3] f by (simp add: msb_def [symmetric] st3_def algebra_simps)
  ultimately have "synced ?l (\<lambda>d. d = zero_disk_entry) ?psb st3"
    by (simp add: synced_def msb_def [symmetric] sb_def)
  with run len3 show ?thesis by blast
qed

section \<open>Mounting a formatted storage\<close>

lemma be_to_cpu_0: "8 * n = LENGTH('a) \<Longrightarrow> be_to_cpu little n (0 :: 'a::len word) = 0"
  using cpu_to_be_eq_be_to_cpu [of n little "0 :: 'a word"] by (simp add: cpu_to_be_0)

lemma load_zero_entry:
  "load_entry little fresh zero_disk_entry =
     fresh\<lparr>ino := 0, mode := 0, size_in_bytes := 0, indirect_extents := Null, dir_entries := Null\<rparr>"
  by (simp add: load_entry_def zero_disk_entry_def be_to_cpu_0 Let_def)

lemma mount_formatted:
  assumes K: "kernel_ok K" "memory_ok K" "new_inode_ok K" "d_make_root_ok K"
    and lay: "layout_ok psb st" and free: "filetable psb = replicate (unat (max_file_count psb)) zero_entry"
    and synced: "synced (little_endian K) (\<lambda>d. d = zero_disk_entry) psb st"
    and st: "filp_open K (path_of_options options path) = Inr st"
    and small: "table_bytes psb div ENTRY_SIZE \<le> unat (max_file_count psb)"
  shows "\<exists>root psb'. portfs_fill_super K options path = Some (Inr (root, psb')) \<and> i_ino root = 1 \<and>
    i_private root = Some 0 \<and> same_geometry psb psb' \<and> block_bitmap psb' = block_bitmap psb \<and>
    length (filetable psb') = unat (max_file_count psb) \<and>
    filetable psb' ! 0 = (fresh_entry K 0)\<lparr>ino := 1, mode := 0x41ED, size_in_bytes := 0,
       dir_u := \<lparr>dir_block = dir_block (dir_u (fresh_entry K 0)), parent_dir_ino = 1\<rparr>,
       indirect_extents := Null, dir_entries := Null\<rparr> \<and>
    (\<forall>j. 0 < j \<and> j < unat (max_file_count psb) \<longrightarrow> filetable psb' ! j = (fresh_entry K j)\<lparr>ino := 0, mode := 0,
       size_in_bytes := 0, indirect_extents := Null, dir_entries := Null\<rparr>)"
proof -
  let ?n = "unat (max_file_count psb)"
  have pos: "0 < ?n" using lay by (simp add: layout_ok_def word_less_nat_alt)
  have unused: "\<not> in_use zero_entry" by (simp add: in_use_def zero_entry_def S_ISREG_def S_ISDIR_def)
  have ready: "\<forall>j < ?n. entry_ready psb (filetable psb ! j)"
    unfolding free by (simp add: entry_ready_def zero_entry_def S_ISREG_def S_ISDIR_def)
  obtain psb0 where mounted: "portfs_init_fs_data K options path = Some (Inr psb0)"
    and geo: "same_geometry psb psb0" and bm: "block_bitmap psb0 = block_bitmap psb" and len: "length (filetable psb0) = ?n"
    and ents: "\<forall>j < length (filetable psb0). comes_back K (\<lambda>d. d = zero_disk_entry) j (filetable psb ! j) (filetable psb0 ! j)"
    using mount_synced [OF K(1,2) lay ready synced st] by blast
  have entry: "filetable psb0 ! j = (fresh_entry K j)\<lparr>ino := 0, mode := 0, size_in_bytes := 0,
      indirect_extents := Null, dir_entries := Null\<rparr>" if "j < ?n" for j
    using ents len that unused by (simp add: comes_back_def free load_zero_entry)
  have table: "table_ok psb0" using len geo by (simp add: table_ok_def same_geometry_def)
  have "\<forall>fe \<in> set (filetable psb0). ino fe \<noteq> 1" using entry len by (auto simp: in_set_conv_nth)
  then have root: "portfs_get_fe_root psb0 = Some None"
    unfolding portfs_get_fe_root_def
    by (intro fe_root_loop_none) (use same_geometry_layout [OF geo lay] small len in simp_all)
  have "(LEAST k. mode (filetable psb0 ! k) = 0) = 0" using entry [OF pos] by (intro Least_equality) simp_all
  then have slot: "portfs_find_free_file_entry psb0 = Some (Some 0)"
    using find_free_file_entry_least [OF table] entry [OF pos] pos len by auto
  have "on_entry psb0 0 (\<lambda>psb fe. Some ((), psb, fe\<lparr>mode := 0x41ED, ino := 1, size_in_bytes := 0,
      dir_u := (dir_u fe)\<lparr>parent_dir_ino := 1\<rparr>\<rparr>)) =
    Some ((), psb0\<lparr>filetable := (filetable psb0)[0 := (filetable psb0 ! 0)\<lparr>mode := 0x41ED, ino := 1, size_in_bytes := 0,
      dir_u := (dir_u (filetable psb0 ! 0))\<lparr>parent_dir_ino := 1\<rparr>\<rparr>]\<rparr>)"
    using pos len by (simp add: on_entry_def array_simps)
  then have "portfs_fill_super K options path = Some (Inr (\<lparr>i_ino = 1, i_mode = 0x41ED, i_size = 0, i_nlink = 1, i_private = Some 0\<rparr>,
      psb0\<lparr>filetable := (filetable psb0)[0 := (filetable psb0 ! 0)\<lparr>mode := 0x41ED, ino := 1, size_in_bytes := 0,
        dir_u := (dir_u (filetable psb0 ! 0))\<lparr>parent_dir_ino := 1\<rparr>\<rparr>]\<rparr>))"
    using mounted K(3,4) root slot by (simp add: portfs_fill_super_def)
  with geo bm len pos entry show ?thesis
    by (simp add: same_geometry_def)
qed

text \<open>Formatting a storage and mounting it: the table as it is in memory then.\<close>

lemma format_mount_run:
  assumes "0 < n" and "n \<le> 4" and "length st = n * 2 ^ 30" and "\<And>s. open_ok T s" and "length (padding T) = 4"
    and "kernel_ok K" and "memory_ok K" and "new_inode_ok K" and "d_make_root_ok K"
    and "little_endian K = tool_little_endian T" and "msb = createSuperblock (askFileSize (of_nat n))"
  shows "\<exists>st' root psb'. formatStorage T (askFileSize (of_nat n)) st = (0, st') \<and> length st' = length st \<and>
    portfs_fill_super (reopened K st') options path = Some (Inr (root, psb')) \<and>
    i_ino root = 1 \<and> i_private root = Some 0 \<and> same_geometry msb psb' \<and> layout_ok psb' st' \<and>
    block_bitmap psb' = replicate (bitmap_bytes msb) 0 \<and>
    filetable psb' ! 0 = (fresh_entry K 0)\<lparr>ino := 1, mode := 0x41ED, size_in_bytes := 0,
       dir_u := \<lparr>dir_block = dir_block (dir_u (fresh_entry K 0)), parent_dir_ino = 1\<rparr>,
       indirect_extents := Null, dir_entries := Null\<rparr> \<and>
    (\<forall>j. 0 < j \<and> j < unat (max_file_count msb) \<longrightarrow> filetable psb' ! j = (fresh_entry K j)\<lparr>ino := 0, mode := 0,
       size_in_bytes := 0, indirect_extents := Null, dir_entries := Null\<rparr>)"
proof -
  let ?psb = "empty_file_system (askFileSize (of_nat n))"
  have n14: "n < 2 ^ 14" using assms(2) by simp
  note f = superblock_fields [OF n14 assms(11)]
  obtain st' where st': "formatStorage T (askFileSize (of_nat n)) st = (0, st')" "length st' = length st"
      "synced (tool_little_endian T) (\<lambda>d. d = zero_disk_entry) ?psb st'"
    using format_run [OF assms(1-5)] by blast
  have lay: "layout_ok ?psb st'" using formatted_layout [OF assms(1,2)] st'(2) assms(3) by simp
  have env: "kernel_ok (reopened K st')" "memory_ok (reopened K st')" "new_inode_ok (reopened K st')"
    "d_make_root_ok (reopened K st')" "filp_open (reopened K st') (path_of_options options path) = Inr st'"
    using assms(6-9) by simp_all
  have small: "table_bytes ?psb div ENTRY_SIZE \<le> unat (max_file_count ?psb)"
    using f assms(11) by simp
  obtain root psb' where m: "portfs_fill_super (reopened K st') options path = Some (Inr (root, psb'))" "i_ino root = 1"
      "i_private root = Some 0" "same_geometry ?psb psb'" "block_bitmap psb' = block_bitmap ?psb"
      "length (filetable psb') = unat (max_file_count ?psb)"
      "filetable psb' ! 0 = (fresh_entry K 0)\<lparr>ino := 1, mode := 0x41ED, size_in_bytes := 0,
         dir_u := \<lparr>dir_block = dir_block (dir_u (fresh_entry K 0)), parent_dir_ino = 1\<rparr>,
         indirect_extents := Null, dir_entries := Null\<rparr>"
      "\<forall>j. 0 < j \<and> j < unat (max_file_count ?psb) \<longrightarrow> filetable psb' ! j = (fresh_entry K j)\<lparr>ino := 0, mode := 0,
         size_in_bytes := 0, indirect_extents := Null, dir_entries := Null\<rparr>"
    using mount_formatted [OF env(1-4) lay _ _ env(5) small] st'(3) assms(10) by auto
  have "layout_ok psb' st'"
    using lay m(4-6) by (simp add: layout_ok_def storage_ok_def addressable_def table_ok_def same_geometry_def)
  with st'(1,2) assms(11) m show ?thesis
    by (intro exI [of _ st'] exI [of _ root] exI [of _ psb'])
      (simp add: same_geometry_def empty_file_system_def Let_def)
qed

section \<open>Properties\<close>

text \<open>
  C30: For every size of whole GiB below 16 TiB the tool's layout is exact: superblock, file table, block
  bitmap and data area follow one another without gaps, the table has room for all entries, the bitmap has
  one bit per block, the blocks make up the whole file, and there are data blocks.
\<close>

theorem format_layout_exact:
  assumes "0 < n" and "n < 2 ^ 14" and "msb = createSuperblock (askFileSize (of_nat n))"
  shows "unat (total_blocks msb) * unat (block_size msb) = n * 2 ^ 30 \<and>
    60 \<le> table_pos msb \<and> 52 * unat (max_file_count msb) = table_bytes msb \<and>
    table_pos msb + table_bytes msb = bitmap_pos msb \<and> 8 * bitmap_bytes msb = unat (total_blocks msb) \<and>
    bitmap_pos msb + bitmap_bytes msb = data_pos msb \<and> data_start msb < total_blocks msb"
  using assms(1,2) unfolding word_less_nat_alt superblock_fields [OF assms(2,3)] by simp

theorem format_layout_exact_witness:
  "unat (total_blocks (createSuperblock (askFileSize (of_nat 3)))) * unat (block_size (createSuperblock (askFileSize (of_nat 3)))) =
   3 * 2 ^ 30"
  using format_layout_exact [of 3 "createSuperblock (askFileSize (of_nat 3))", OF _ _ refl] by simp

text \<open>
  C31: Formatting a storage of up to 4 GiB and mounting it succeeds, whatever the file held before: the
  geometry is the one computed, no block is allocated, entry 0 is the new root with inode number 1 and all
  other entries are free.  But the number of the root's block is not set: it is what the memory of the
  file table held when it was allocated.
\<close>

theorem format_then_mount:
  assumes "0 < n" and "n \<le> 4" and "length st = n * 2 ^ 30" and "\<And>s. open_ok T s" and "length (padding T) = 4"
    and "kernel_ok K" and "memory_ok K" and "new_inode_ok K" and "d_make_root_ok K"
    and "little_endian K = tool_little_endian T" and "msb = createSuperblock (askFileSize (of_nat n))"
  shows "\<exists>st' root psb'. formatStorage T (askFileSize (of_nat n)) st = (0, st') \<and>
    portfs_fill_super (reopened K st') options path = Some (Inr (root, psb')) \<and>
    i_ino root = 1 \<and> i_private root = Some 0 \<and> same_geometry msb psb' \<and>
    block_bitmap psb' = replicate (bitmap_bytes msb) 0 \<and>
    mode (filetable psb' ! 0) = 0x41ED \<and> ino (filetable psb' ! 0) = 1 \<and>
    dir_block (dir_u (filetable psb' ! 0)) = dir_block (dir_u (fresh_entry K 0)) \<and>
    (\<forall>j. 0 < j \<and> j < unat (max_file_count msb) \<longrightarrow> mode (filetable psb' ! j) = 0)"
  using format_mount_run [OF assms, where options = options and path = path] by fastforce

definition format_host :: tool_env where
  "format_host = \<lparr>tool_little_endian = True, open_ok = (\<lambda>s. True), padding = replicate 4 0\<rparr>"

theorem format_then_mount_witness:
  "\<exists>st' root psb'. formatStorage format_host (askFileSize (of_nat 1)) (replicate (2 ^ 30) 0) = (0, st') \<and>
    portfs_fill_super (reopened mount_host st') [] [] = Some (Inr (root, psb')) \<and> i_private root = Some 0"
  using format_then_mount [of 1 "replicate (2 ^ 30) 0" format_host mount_host _ "[]" "[]", OF _ _ _ _ _ _ _ _ _ _ refl]
    mount_host_facts
  by (fastforce simp: format_host_def)

end
