(* ===== verification/System.thy ===== *)
theory System
  imports Readdir Format_Spec
begin

text \<open>
  The file system as a whole: a state is the superblock in memory and the bytes of the storage, a step is
  one successful operation of the module on it.  \<open>stepping\<close> is the interface of a system with an
  invariant.  The invariant \<open>fs_ok\<close> says that every file is well formed and covered by blocks that are
  allocated, and that no two files share a block.
\<close>

section \<open>Systems with an invariant\<close>


section \<open>The state and its invariant\<close>









lemma file_ok_table [simp]: "file_ok (psb\<lparr>filetable := ft\<rparr>) fe = file_ok psb fe"
  by (simp add: file_ok_def)

lemma wf_super_table [simp]: "wf_super (psb\<lparr>filetable := ft\<rparr>) = wf_super psb"
  by (simp add: wf_super_def portfs_max_extents_def)

lemma storage_ok_table [simp]: "storage_ok (psb\<lparr>filetable := ft\<rparr>) st = storage_ok psb st"
  by (simp add: storage_ok_def addressable_def)








section \<open>Steps\<close>









section \<open>Each step keeps the invariant\<close>
















section \<open>A run\<close>





section \<open>Properties\<close>







end
