(* ===== verification/Dialogue.thy ===== *)
theory Dialogue
  imports Format_Spec
begin

text \<open>
  The dialogue of the tool: \<open>user/UIManager.cpp\<close> and \<open>mountPortfs\<close> of \<open>user/StorageManager.cpp\<close>.  The
  standard input is the list of the bytes still to come and the fail flag of the stream; what is printed
  is left out.  A question that is asked again for ever is the result \<open>None\<close>.
\<close>

section \<open>State\<close>

record ui_env = tool_env +
  create_ok :: bool
  truncate_ok :: bool
  mount_dir_ok :: "u8 list \<Rightarrow> bool"
  mount_ok :: bool

text \<open>The input, the storage file, and the \<open>mount\<close> calls made: the directory and the options.\<close>

record tool_state =
  chars :: "u8 list"
  failed :: bool
  storage_file :: "u8 list"
  mounts :: "(u8 list \<times> u8 list) list"

section \<open>Reading from the input\<close>

definition is_space :: "u8 \<Rightarrow> bool" where
  "is_space c \<longleftrightarrow> c = 32 \<or> 9 \<le> c \<and> c \<le> 13"

definition is_digit :: "u8 \<Rightarrow> bool" where
  "is_digit c \<longleftrightarrow> 48 \<le> c \<and> c \<le> 57"

definition next_input :: "tool_state \<Rightarrow> u8 list" where
  "next_input s = (if failed s then [] else dropWhile is_space (chars s))"

text \<open>\<open>>> std::string\<close>\<close>

definition read_word :: "tool_state \<Rightarrow> u8 list \<times> tool_state" where
  "read_word s =
     (let cs = next_input s
      in if cs = [] then ([], s\<lparr>chars := [], failed := True\<rparr>)
         else (takeWhile (\<lambda>c. \<not> is_space c) cs, s\<lparr>chars := dropWhile (\<lambda>c. \<not> is_space c) cs\<rparr>))"

text \<open>\<open>>> size_t\<close>: a sign is accepted, and a number that is too big fails with the greatest value.\<close>

definition digits_value :: "u8 list \<Rightarrow> nat" where
  "digits_value ds = foldl (\<lambda>a d. 10 * a + unat (d - 48)) 0 ds"

definition read_size :: "tool_state \<Rightarrow> u64 \<times> tool_state" where
  "read_size s =
     (let cs = next_input s
      in if cs = [] then (0, s\<lparr>chars := [], failed := True\<rparr>)
         else
           let unsigned = (if hd cs = 43 \<or> hd cs = 45 then tl cs else cs);
               ds = takeWhile is_digit unsigned;
               s = s\<lparr>chars := dropWhile is_digit unsigned\<rparr>;
               v = digits_value ds
           in if ds = [] then (0, s\<lparr>failed := True\<rparr>)
              else if 2 ^ 64 \<le> v then (-1, s\<lparr>failed := True\<rparr>)
              else (if hd cs = 45 then - of_nat v else of_nat v, s))"

text \<open>\<open>>> std::filesystem::path\<close>: a word, or a text in double quotes with backslashes before quoted bytes.\<close>

fun unquote :: "u8 list \<Rightarrow> (u8 list \<times> u8 list) option" where
  "unquote [] = None"
| "unquote (c # cs) =
     (if c = 34 then Some ([], cs)
      else if c = 92 then (case cs of [] \<Rightarrow> None | d # ds \<Rightarrow> map_option (apfst (Cons d)) (unquote ds))
      else map_option (apfst (Cons c)) (unquote cs))"

definition read_path :: "tool_state \<Rightarrow> u8 list \<times> tool_state" where
  "read_path s =
     (let cs = next_input s
      in if cs = [] \<or> hd cs \<noteq> 34 then read_word s
         else case unquote (tl cs) of
                None \<Rightarrow> ([], s\<lparr>chars := [], failed := True\<rparr>)
              | Some (path, rest) \<Rightarrow> (path, s\<lparr>chars := rest\<rparr>))"

section \<open>The questions\<close>

definition stringToLower :: "u8 list \<Rightarrow> u8 list" where
  "stringToLower str = map (\<lambda>c. if 65 \<le> c \<and> c \<le> 90 then c + 32 else c) str"

definition read_answer :: "tool_state \<Rightarrow> u8 list \<times> tool_state" where
  "read_answer s = apfst stringToLower (read_word s)"

definition says_yes :: "u8 list \<Rightarrow> bool" where
  "says_yes answer \<longleftrightarrow> answer = [121, 101, 115] \<or> answer = [121]"

definition says_no :: "u8 list \<Rightarrow> bool" where
  "says_no answer \<longleftrightarrow> answer = [110, 111] \<or> answer = [110]"

text \<open>\<open>/var/tmp/storage.pfs\<close>\<close>

definition storageFilePath :: "u8 list" where
  "storageFilePath = [47, 118, 97, 114, 47, 116, 109, 112, 47, 115, 116, 111, 114, 97, 103, 101, 46, 112, 102, 115]"

definition mountPortfs :: "ui_env \<Rightarrow> u8 list \<Rightarrow> u8 list \<Rightarrow> tool_state \<Rightarrow> int \<times> tool_state" where
  "mountPortfs T mountDirPath path s =
     (if mount_ok T then 0 else -1, s\<lparr>mounts := mounts s @ [(mountDirPath, path_key @ path)]\<rparr>)"

partial_function (option) askMountPortfs :: "ui_env \<Rightarrow> u8 list \<Rightarrow> tool_state \<Rightarrow> tool_state option" where
  "askMountPortfs T path s =
     (let (answer, s) = read_answer s
      in if says_yes answer then
           let (mountDirPath, s) = read_path s
           in Some (if mount_dir_ok T mountDirPath then snd (mountPortfs T mountDirPath path s) else s)
         else if says_no answer then Some s
         else askMountPortfs T path s)"

text \<open>The results of formatting and mounting are ignored.\<close>

definition askFileSize_dialogue :: "ui_env \<Rightarrow> tool_state \<Rightarrow> tool_state option" where
  "askFileSize_dialogue T s =
     (let (fileSize, s) = read_size s; fileSizeInBytes = askFileSize fileSize
      in case createFile (create_ok T) (truncate_ok T) (storage_file s) fileSizeInBytes of
           None \<Rightarrow> Some s
         | Some st \<Rightarrow>
             let (_, st) = formatStorage (tool_env.truncate T) fileSizeInBytes st
             in askMountPortfs T storageFilePath (s\<lparr>storage_file := st\<rparr>))"

text \<open>
  \<open>askCreateFile\<close> and \<open>askExistingFile\<close>, which call each other: the flag tells which of the two asks.
\<close>

partial_function (option) askFile :: "ui_env \<Rightarrow> bool \<Rightarrow> tool_state \<Rightarrow> tool_state option" where
  "askFile T creating s =
     (let (answer, s) = read_answer s
      in if says_yes answer then
           if creating then askFileSize_dialogue T s
           else let (path, s) = read_word s in askMountPortfs T path s
         else if says_no answer then askFile T (\<not> creating) s
         else askFile T creating s)"

definition askCreateFile :: "ui_env \<Rightarrow> tool_state \<Rightarrow> tool_state option" where
  "askCreateFile T = askFile T True"

definition askExistingFile :: "ui_env \<Rightarrow> tool_state \<Rightarrow> tool_state option" where
  "askExistingFile T = askFile T False"

definition start :: "ui_env \<Rightarrow> tool_state \<Rightarrow> tool_state option" where
  "start T s = askCreateFile T s"

section \<open>What the dialogue does\<close>

text \<open>Reading lines of one word each.\<close>

definition is_word :: "u8 list \<Rightarrow> bool" where
  "is_word w \<longleftrightarrow> w \<noteq> [] \<and> (\<forall>c \<in> set w. \<not> is_space c)"

definition input_lines :: "u8 list list \<Rightarrow> u8 list" where
  "input_lines ws = concat (map (\<lambda>w. w @ [10]) ws)"

lemma input_lines_simps [simp]:
  "input_lines [] = []" "input_lines (w # ws) = w @ 10 # input_lines ws"
  by (simp_all add: input_lines_def)

text \<open>The input of a state is a list of words, the first of them perhaps behind the end of a line.\<close>

definition has_lines :: "tool_state \<Rightarrow> u8 list list \<Rightarrow> bool" where
  "has_lines s ws \<longleftrightarrow> \<not> failed s \<and> (chars s = input_lines ws \<or> chars s = 10 # input_lines ws)"

lemma space_10 [simp]: "is_space 10"
  by (simp add: is_space_def)

lemma next_input_line:
  assumes "has_lines s (w # ws)" and "is_word w"
  shows "next_input s = w @ 10 # input_lines ws"
proof -
  have "dropWhile is_space (w @ 10 # input_lines ws) = w @ 10 # input_lines ws"
    using assms(2) by (cases w) (simp_all add: is_word_def)
  with assms(1) show ?thesis by (auto simp: has_lines_def next_input_def)
qed

lemma read_word_line:
  assumes "has_lines s (w # ws)" and "is_word w"
  shows "read_word s = (w, s\<lparr>chars := 10 # input_lines ws\<rparr>)"
proof -
  have "takeWhile (\<lambda>c. \<not> is_space c) (w @ 10 # input_lines ws) = w"
    "dropWhile (\<lambda>c. \<not> is_space c) (w @ 10 # input_lines ws) = 10 # input_lines ws"
    using assms(2) by (auto simp: is_word_def takeWhile_append2 dropWhile_append2)
  with next_input_line [OF assms] show ?thesis by (simp add: read_word_def)
qed

lemma has_lines_rest: "has_lines s ws \<Longrightarrow> has_lines (s\<lparr>chars := 10 # input_lines ws'\<rparr>) ws'"
  by (simp add: has_lines_def)

lemma read_answer_line:
  "has_lines s (w # ws) \<Longrightarrow> is_word w \<Longrightarrow> read_answer s = (stringToLower w, s\<lparr>chars := 10 # input_lines ws\<rparr>)"
  by (simp add: read_answer_def read_word_line)

lemma read_size_line:
  assumes "has_lines s (ds # ws)" and "ds \<noteq> []" and "\<forall>d \<in> set ds. is_digit d" and "digits_value ds = n" and "n < 2 ^ 64"
  shows "read_size s = (of_nat n, s\<lparr>chars := 10 # input_lines ws\<rparr>)"
proof -
  have "is_digit c \<Longrightarrow> \<not> is_space c \<and> c \<noteq> 43 \<and> c \<noteq> 45" for c
    by (auto simp: is_digit_def is_space_def word_le_nat_alt)
  with assms(2,3) have word: "is_word ds" and sign: "hd ds \<noteq> 43 \<and> hd ds \<noteq> 45"
    by (auto simp: is_word_def)
  have "takeWhile is_digit (ds @ 10 # input_lines ws) = ds"
    "dropWhile is_digit (ds @ 10 # input_lines ws) = 10 # input_lines ws"
    using assms(3) by (simp_all add: takeWhile_append2 dropWhile_append2 is_digit_def)
  then show ?thesis
    using assms(2,4,5) sign next_input_line [OF assms(1) word] by (simp add: read_size_def Let_def)
qed

lemma read_path_line:
  assumes "has_lines s (w # ws)" and "is_word w" and "hd w \<noteq> 34"
  shows "read_path s = (w, s\<lparr>chars := 10 # input_lines ws\<rparr>)"
proof -
  have "hd (w @ 10 # input_lines ws) \<noteq> 34" using assms(2,3) by (simp add: is_word_def)
  then show ?thesis
    using read_word_line [OF assms(1,2)] next_input_line [OF assms(1,2)] by (simp add: read_path_def)
qed

text \<open>Wrong answers are asked for again.\<close>

lemma askFile_wrong:
  assumes "has_lines s (ws @ ls)" and "\<forall>w \<in> set ws. is_word w \<and> \<not> says_yes (stringToLower w) \<and> \<not> says_no (stringToLower w)"
  shows "\<exists>s'. askFile T creating s = askFile T creating s' \<and> has_lines s' ls \<and> s' = s\<lparr>chars := chars s'\<rparr>"
  using assms
proof (induction ws arbitrary: s)
  case Nil
  then show ?case by (intro exI [of _ s]) simp
next
  case (Cons w ws)
  let ?s = "s\<lparr>chars := 10 # input_lines (ws @ ls)\<rparr>"
  have "askFile T creating s = askFile T creating ?s"
    using read_answer_line [of s w "ws @ ls"] Cons.prems by (subst askFile.simps) simp
  moreover obtain s' where "askFile T creating ?s = askFile T creating s'" "has_lines s' ls" "s' = ?s\<lparr>chars := chars s'\<rparr>"
    using Cons.IH [of ?s] has_lines_rest [of s "w # ws @ ls" "ws @ ls"] Cons.prems by auto
  ultimately show ?case by (intro exI [of _ s']) simp
qed

lemma askMountPortfs_yes:
  assumes "has_lines s [a, dir]" and "is_word a" and "says_yes (stringToLower a)"
    and "is_word dir" and "hd dir \<noteq> 34" and "mount_dir_ok T dir"
  shows "askMountPortfs T path s = Some (s\<lparr>chars := [10], mounts := mounts s @ [(dir, path_key @ path)]\<rparr>)"
  using read_answer_line [OF assms(1,2)] assms(3,6)
    read_path_line [OF has_lines_rest [OF assms(1), of "[dir]"] assms(4,5)]
  by (subst askMountPortfs.simps) (simp add: mountPortfs_def)

text \<open>At the end of the input every question is asked for ever.\<close>

lemma read_word_at_end: "next_input s = [] \<Longrightarrow> \<exists>s'. read_answer s = ([], s') \<and> next_input s' = []"
  by (simp add: read_answer_def read_word_def stringToLower_def next_input_def)


lemma askMountPortfs_needs_input:
  assumes "askMountPortfs T path s = Some s'"
  shows "next_input s \<noteq> []"
proof (rule askMountPortfs.raw_induct [where P = "\<lambda>T path s s'. next_input s \<noteq> []", OF _ assms], rule notI)
  fix ask :: "ui_env \<Rightarrow> u8 list \<Rightarrow> tool_state \<Rightarrow> tool_state option" and T path s s'
  assume IH: "\<And>T path s s'. ask T path s = Some s' \<Longrightarrow> next_input s \<noteq> []"
    and run: "(let (answer, s) = read_answer s
      in if says_yes answer then
           let (mountDirPath, s) = read_path s
           in Some (if mount_dir_ok T mountDirPath then snd (mountPortfs T mountDirPath path s) else s)
         else if says_no answer then Some s
         else ask T path s) = Some s'" and "next_input s = []"
  then obtain s1 where "read_answer s = ([], s1)" "next_input s1 = []" using read_word_at_end by blast
  with run IH show False by (force simp: says_yes_def says_no_def)
qed

lemma askFile_needs_input:
  assumes "askFile T creating s = Some s'"
  shows "next_input s \<noteq> []"
proof (rule askFile.raw_induct [where P = "\<lambda>T creating s s'. next_input s \<noteq> []", OF _ assms], rule notI)
  fix ask :: "ui_env \<Rightarrow> bool \<Rightarrow> tool_state \<Rightarrow> tool_state option" and T creating s s'
  assume IH: "\<And>T creating s s'. ask T creating s = Some s' \<Longrightarrow> next_input s \<noteq> []"
    and run: "(let (answer, s) = read_answer s
      in if says_yes answer then
           if creating then askFileSize_dialogue T s
           else let (path, s) = read_word s in askMountPortfs T path s
         else if says_no answer then ask T (\<not> creating) s
         else ask T creating s) = Some s'" and "next_input s = []"
  then obtain s1 where "read_answer s = ([], s1)" "next_input s1 = []" using read_word_at_end by blast
  with run IH show False by (force simp: says_yes_def says_no_def)
qed

section \<open>Properties\<close>

text \<open>
  C32: From the answers to the mount: after any number of wrong answers, a user who says yes, gives a size of
  up to 4 GiB, says yes again and names an existing directory gets a storage file that holds an empty file
  system of that size, whatever the file held before, and one mount call, whose options the module reads
  back as the path of exactly that file.
\<close>

theorem answers_lead_to_mount:
  assumes "has_lines s (wrong @ [yes, digits, yes', dir])"
    and "\<forall>w \<in> set wrong. is_word w \<and> \<not> says_yes (stringToLower w) \<and> \<not> says_no (stringToLower w)"
    and "is_word yes" and "says_yes (stringToLower yes)" and "is_word yes'" and "says_yes (stringToLower yes')"
    and "digits \<noteq> []" and "\<forall>d \<in> set digits. is_digit d" and "digits_value digits = n" and "0 < n" and "n \<le> 4"
    and "is_word dir" and "hd dir \<noteq> 34" and "mount_dir_ok T dir"
    and "create_ok T" and "truncate_ok T" and "\<And>x. open_ok T x" and "length (padding T) = 4"
  shows "\<exists>st options. start T s = Some (s\<lparr>chars := [10], storage_file := st, mounts := mounts s @ [(dir, options)]\<rparr>) \<and>
    path_of_options options path = storageFilePath \<and> length st = n * 2 ^ 30 \<and>
    synced (tool_little_endian T) (\<lambda>d. d = zero_disk_entry) (empty_file_system (askFileSize (of_nat n))) st"
proof -
  let ?bytes = "askFileSize (of_nat n)"
  obtain s1 where s1: "askFile T True s = askFile T True s1" "has_lines s1 [yes, digits, yes', dir]"
      "s1 = s\<lparr>chars := chars s1\<rparr>"
    using askFile_wrong [OF assms(1,2)] by blast
  note l2 = has_lines_rest [OF s1(2), of "[digits, yes', dir]"] and l3 = has_lines_rest [OF s1(2), of "[yes', dir]"]
  define st0 where "st0 = take (unat ?bytes) (storage_file s @ replicate (unat ?bytes) 0)"
  have len0: "length st0 = n * 2 ^ 30"
    using assms(11) size_of_gb [of n] by (simp add: st0_def)
  obtain st where st: "formatStorage (tool_env.truncate T) ?bytes st0 = (0, st)" "length st = length st0"
      "synced (tool_little_endian T) (\<lambda>d. d = zero_disk_entry) (empty_file_system ?bytes) st"
    using format_run [OF assms(10,11) len0, of "tool_env.truncate T"] assms(17,18) by (auto simp: tool_env.defs)
  let ?s3 = "s1\<lparr>chars := 10 # input_lines [yes', dir]\<rparr>"
  have old: "storage_file s1 = storage_file s" by (subst s1(3)) simp
  have "read_size (s1\<lparr>chars := 10 # input_lines [digits, yes', dir]\<rparr>) = (of_nat n, ?s3)"
    using read_size_line [OF l2 assms(7-9)] assms(11) by simp
  then have "askFileSize_dialogue T (s1\<lparr>chars := 10 # input_lines [digits, yes', dir]\<rparr>) =
      askMountPortfs T storageFilePath (?s3\<lparr>storage_file := st\<rparr>)"
    using st(1) assms(15,16) old by (simp add: askFileSize_dialogue_def createFile_def st0_def)
  also have "\<dots> = Some (?s3\<lparr>storage_file := st, chars := [10], mounts := mounts s1 @ [(dir, path_key @ storageFilePath)]\<rparr>)"
    using askMountPortfs_yes [of "?s3\<lparr>storage_file := st\<rparr>" yes' dir T storageFilePath] assms(5,6,12-14) l3
    by (simp add: has_lines_def)
  finally have "start T s = Some (?s3\<lparr>storage_file := st, chars := [10], mounts := mounts s1 @ [(dir, path_key @ storageFilePath)]\<rparr>)"
    using read_answer_line [OF s1(2) assms(3)] assms(4) s1(1)
    by (simp add: start_def askCreateFile_def) (subst askFile.simps, simp)
  moreover have "?s3\<lparr>storage_file := st, chars := [10], mounts := mounts s1 @ [(dir, path_key @ storageFilePath)]\<rparr> =
      s\<lparr>chars := [10], storage_file := st, mounts := mounts s @ [(dir, path_key @ storageFilePath)]\<rparr>"
    by (subst (1 2) s1(3)) simp
  moreover have "path_of_options (path_key @ storageFilePath) path = storageFilePath" by code_simp
  ultimately show ?thesis using st len0 by auto
qed

definition patient_user :: "tool_state" where
  "patient_user = \<lparr>chars = input_lines [[109, 97, 121, 98, 101], [89], [50], [121, 101, 115], [47, 109, 110, 116]],
     failed = False, storage_file = [1, 2, 3], mounts = []\<rparr>"

definition tool_host :: ui_env where
  "tool_host = tool_env.extend format_host (ui_env.fields True True (\<lambda>dir. dir = [47, 109, 110, 116]) True)"

theorem answers_lead_to_mount_witness:
  "\<exists>s. start tool_host patient_user = Some s \<and> length (storage_file s) = 2 * 2 ^ 30 \<and> length (mounts s) = 1"
proof -
  have "has_lines patient_user ([[109, 97, 121, 98, 101]] @ [[89], [50], [121, 101, 115], [47, 109, 110, 116]])"
    by (simp add: has_lines_def patient_user_def)
  moreover have "\<forall>w \<in> set [[109, 97, 121, 98, 101]]. is_word w \<and> \<not> says_yes (stringToLower w) \<and> \<not> says_no (stringToLower w)"
    "is_word [89]" "says_yes (stringToLower [89])" "is_word [121, 101, 115]" "says_yes (stringToLower [121, 101, 115])"
    "\<forall>d \<in> set [50]. is_digit d" "digits_value [50] = 2" "is_word [47, 109, 110, 116]"
    by code_simp+
  moreover have "mount_dir_ok tool_host [47, 109, 110, 116]" "create_ok tool_host" "truncate_ok tool_host"
    "\<And>x. open_ok tool_host x" "length (padding tool_host) = 4" "mounts patient_user = []"
    by (simp_all add: tool_host_def format_host_def patient_user_def tool_env.defs ui_env.defs)
  ultimately obtain st options where "start tool_host patient_user =
      Some (patient_user\<lparr>chars := [10], storage_file := st, mounts := mounts patient_user @ [([47, 109, 110, 116], options)]\<rparr>)"
      "length st = 2 * 2 ^ 30"
    using answers_lead_to_mount [of patient_user "[[109, 97, 121, 98, 101]]" "[89]" "[50]" "[121, 101, 115]"
        "[47, 109, 110, 116]" 2 tool_host "[]"] by auto
  with \<open>mounts patient_user = []\<close> show ?thesis by simp
qed

text \<open>
  C33: When the input has ended or its stream has failed, as it has after a size that is not a number, the
  tool does not stop: an answer that cannot be read counts as a wrong one, and the question is asked again
  without end, also the one behind the creation of the file.
\<close>

theorem asks_forever_at_end_of_input:
  assumes "next_input s = []"
  shows "start T s = None \<and> askExistingFile T s = None \<and> askMountPortfs T path s = None \<and>
    (create_ok T \<and> truncate_ok T \<longrightarrow> askFileSize_dialogue T s = None)"
proof -
  obtain s' where "read_size s = (0, s')" "next_input s' = []"
    using assms by (simp add: read_size_def) (simp add: next_input_def)
  moreover have "next_input (s'\<lparr>storage_file := st\<rparr>) = next_input s'" for st by (simp add: next_input_def)
  ultimately have stuck: "askMountPortfs T p (s'\<lparr>storage_file := st\<rparr>) = None" for p st
    using askMountPortfs_needs_input by (metis not_None_eq)
  have "askFileSize_dialogue T s = None" if "create_ok T" "truncate_ok T"
    using \<open>read_size s = (0, s')\<close> that stuck by (simp add: askFileSize_dialogue_def createFile_def split: prod.splits)
  moreover have "askFile T c s = None" for c using askFile_needs_input assms by (metis not_None_eq)
  moreover have "askMountPortfs T path s = None" using askMountPortfs_needs_input assms by (metis not_None_eq)
  ultimately show ?thesis by (simp add: start_def askCreateFile_def askExistingFile_def)
qed

theorem asks_forever_at_end_of_input_witness:
  "start tool_host (patient_user\<lparr>chars := [32, 10]\<rparr>) = None"
proof -
  have "next_input (patient_user\<lparr>chars := [32, 10]\<rparr>) = []" by code_simp
  from asks_forever_at_end_of_input [OF this] show ?thesis by blast
qed

end
